theory Spec2Isabelle
  imports Complex_Main "HOL-Library.AList"
begin

section \<open>Python values and exceptions\<close>

text \<open>
  The exceptions that the modelled Python code can raise or catch; \<open>OtherError\<close> stands
  for an exception of a library call. A function that can raise returns
  \<open>py_error + 'a\<close>, with \<open>Inl\<close> for the raised exception.
\<close>

datatype py_error =
  IndexError | ZeroDivisionError | KeyError | TypeError | AttributeError | OtherError

text \<open>Python's \<open>xs[i]\<close> for a non-negative constant index: IndexError out of range.\<close>

definition py_index :: "'a list \<Rightarrow> nat \<Rightarrow> py_error + 'a" where
  "py_index xs i = (if i < length xs then Inr (xs ! i) else Inl IndexError)"

text \<open>
  \<open>range(0, stop, step)\<close> for \<open>step \<ge> 1\<close>: the multiples of \<open>step\<close> below \<open>stop\<close>;
  empty when \<open>stop \<le> 0\<close>.
\<close>

definition py_range_step :: "int \<Rightarrow> int \<Rightarrow> int list" where
  "py_range_step stop step =
     (if stop \<le> 0 then []
      else map (\<lambda>k. int k * step) [0 ..< nat ((stop + step - 1) div step)])"

section \<open>Video analysis (analysis.py)\<close>

text \<open>
  A landmark is a normalised keypoint. Coordinates are Python floats; the model takes them
  as real numbers, so the comparisons below are exact.
\<close>

record landmark =
  lm_x :: real
  lm_y :: real

text \<open>
  A frame is represented by what the two detectors return on it:
  \<open>pose.process(rgb).pose_landmarks\<close> (\<open>None\<close> or the landmark list) and
  \<open>face_mesh.process(rgb).multi_face_landmarks\<close> (\<open>None\<close> or a list of faces, each a
  landmark list).
\<close>

record frame =
  pose_landmarks :: "landmark list option"
  multi_face_landmarks :: "landmark list list option"

text \<open>
  A \<open>cv2.VideoCapture\<close>: whether it opened, the frame count it reports (already
  converted with \<open>int()\<close>; it need not agree with what can be read), and for each
  position the outcome of seeking there and reading (\<open>None\<close> when \<open>ret\<close> is false).
  Reading beyond the listed positions fails.
\<close>

record video_capture =
  isOpened :: bool
  total_frames :: int
  frames :: "frame option list"

definition read_at :: "video_capture \<Rightarrow> int \<Rightarrow> frame option" where
  "read_at cap i =
     (if 0 \<le> i \<and> nat i < length (frames cap) then frames cap ! nat i else None)"

text \<open>The indices of \<open>mp.solutions.pose.PoseLandmark\<close> used by the code.\<close>

definition LEFT_SHOULDER :: nat where "LEFT_SHOULDER = 11"
definition RIGHT_SHOULDER :: nat where "RIGHT_SHOULDER = 12"
definition LEFT_HIP :: nat where "LEFT_HIP = 23"
definition RIGHT_HIP :: nat where "RIGHT_HIP = 24"

subsection \<open>calculate_smoothed_score\<close>

text \<open>\<open>sum(samples)\<close> on a list of booleans: adds them from the left, starting at 0.\<close>

definition py_sum_bools :: "bool list \<Rightarrow> int" where
  "py_sum_bools samples = foldl (\<lambda>acc b. acc + (if b then 1 else 0)) 0 samples"

definition calculate_smoothed_score :: "bool list \<Rightarrow> real \<Rightarrow> real \<Rightarrow> real" where
  "calculate_smoothed_score samples baseline variation =
     (if samples = [] then baseline
      else (let raw_score = (real_of_int (py_sum_bools samples) / real (length samples)) * 100
            in min 95 (max 30 raw_score)))"

subsection \<open>analyze_video_ultrafast\<close>

record video_state =
  posture_samples :: "bool list"
  eye_contact_samples :: "bool list"
  confidence_samples :: "bool list"
  frame_count :: int

definition init_video_state :: video_state where
  "init_video_state =
     \<lparr>posture_samples = [], eye_contact_samples = [], confidence_samples = [], frame_count = 0\<rparr>"

text \<open>The pose part of the loop body.\<close>

definition pose_step :: "frame \<Rightarrow> video_state \<Rightarrow> py_error + video_state" where
  "pose_step fr st =
     (case pose_landmarks fr of
        None \<Rightarrow> Inr st
      | Some landmarks \<Rightarrow>
          (case py_index landmarks LEFT_SHOULDER of Inl e \<Rightarrow> Inl e | Inr left_shoulder \<Rightarrow>
           case py_index landmarks RIGHT_SHOULDER of Inl e \<Rightarrow> Inl e | Inr right_shoulder \<Rightarrow>
           let shoulder_diff = \<bar>lm_y left_shoulder - lm_y right_shoulder\<bar>;
               st1 = st\<lparr>posture_samples := posture_samples st @ [shoulder_diff < 0.08]\<rparr>
           in
           case py_index landmarks LEFT_HIP of Inl e \<Rightarrow> Inl e | Inr left_hip \<Rightarrow>
           case py_index landmarks RIGHT_HIP of Inl e \<Rightarrow> Inl e | Inr right_hip \<Rightarrow>
           let shoulder_width = \<bar>lm_x left_shoulder - lm_x right_shoulder\<bar>;
               hip_width = \<bar>lm_x left_hip - lm_x right_hip\<bar>
           in Inr (st1\<lparr>confidence_samples :=
                          confidence_samples st1 @ [shoulder_width > hip_width * 0.8]\<rparr>)))"

text \<open>The face part of the loop body, run on every third counted frame.\<close>

definition face_step :: "frame \<Rightarrow> video_state \<Rightarrow> py_error + video_state" where
  "face_step fr st =
     (if frame_count st mod 3 = 0 then
        (case multi_face_landmarks fr of
           None \<Rightarrow> Inr st
         | Some [] \<Rightarrow> Inr st
         | Some (face # _) \<Rightarrow>
             (case py_index face 33 of Inl e \<Rightarrow> Inl e | Inr left_eye \<Rightarrow>
              case py_index face 263 of Inl e \<Rightarrow> Inl e | Inr right_eye \<Rightarrow>
              let eye_distance = \<bar>lm_x left_eye - lm_x right_eye\<bar>
              in Inr (st\<lparr>eye_contact_samples :=
                           eye_contact_samples st @ [eye_distance > 0.1]\<rparr>)))
      else Inr st)"

definition process_frame :: "frame \<Rightarrow> video_state \<Rightarrow> py_error + video_state" where
  "process_frame fr st =
     (case pose_step fr (st\<lparr>frame_count := frame_count st + 1\<rparr>) of
        Inl e \<Rightarrow> Inl e
      | Inr st1 \<Rightarrow> face_step fr st1)"

text \<open>
  The \<open>for i in range(0, total_frames, frame_interval)\<close> loop: it stops (\<open>break\<close>) when
  enough frames were counted or when a read fails.
\<close>

fun video_loop :: "video_capture \<Rightarrow> int \<Rightarrow> int list \<Rightarrow> video_state \<Rightarrow> py_error + video_state"
  where
  "video_loop cap target_samples [] st = Inr st"
| "video_loop cap target_samples (i # rest) st =
     (if frame_count st \<ge> target_samples then Inr st
      else case read_at cap i of
             None \<Rightarrow> Inr st
           | Some fr \<Rightarrow>
               (case process_frame fr st of
                  Inl e \<Rightarrow> Inl e
                | Inr st' \<Rightarrow> video_loop cap target_samples rest st'))"

record video_results =
  posture_score :: real
  eye_contact_score :: real
  confidence_score :: real
  blinks_ok :: bool
  gestures_ok :: bool
  frames_analyzed :: int

text \<open>
  The whole function. \<open>Inr None\<close> is the empty dictionary returned when the capture did
  not open; \<open>total_frames // target_samples\<close> raises when the video reports no frame.
\<close>

definition analyze_video_ultrafast :: "video_capture \<Rightarrow> py_error + video_results option" where
  "analyze_video_ultrafast cap =
     (if \<not> isOpened cap then Inr None
      else let target_samples = min 60 (total_frames cap) in
        if target_samples = 0 then Inl ZeroDivisionError
        else let frame_interval = max 1 (total_frames cap div target_samples) in
          case video_loop cap target_samples
                 (py_range_step (total_frames cap) frame_interval) init_video_state of
            Inl e \<Rightarrow> Inl e
          | Inr st \<Rightarrow>
              Inr (Some \<lparr>posture_score = calculate_smoothed_score (posture_samples st) 65 5,
                         eye_contact_score = calculate_smoothed_score (eye_contact_samples st) 60 5,
                         confidence_score = calculate_smoothed_score (confidence_samples st) 65 5,
                         blinks_ok = True, gestures_ok = True,
                         frames_analyzed = frame_count st\<rparr>))"

subsection \<open>one_click_analysis\<close>

record quick_state =
  posture_count :: int
  frontal_face_count :: int
  frames_checked :: int

definition init_quick_state :: quick_state where
  "init_quick_state = \<lparr>posture_count = 0, frontal_face_count = 0, frames_checked = 0\<rparr>"

definition quick_frame :: "frame \<Rightarrow> quick_state \<Rightarrow> py_error + quick_state" where
  "quick_frame fr st =
     (case (case pose_landmarks fr of
              None \<Rightarrow> Inr st
            | Some landmarks \<Rightarrow>
                (case py_index landmarks 11 of Inl e \<Rightarrow> Inl e | Inr l11 \<Rightarrow>
                 case py_index landmarks 12 of Inl e \<Rightarrow> Inl e | Inr l12 \<Rightarrow>
                 if \<bar>lm_y l11 - lm_y l12\<bar> < 0.08
                 then Inr (st\<lparr>posture_count := posture_count st + 1\<rparr>)
                 else Inr st)) of
        Inl e \<Rightarrow> Inl e
      | Inr st1 \<Rightarrow>
          let st2 = (case multi_face_landmarks fr of
                       None \<Rightarrow> st1
                     | Some [] \<Rightarrow> st1
                     | Some (_ # _) \<Rightarrow> st1\<lparr>frontal_face_count := frontal_face_count st1 + 1\<rparr>)
          in Inr (st2\<lparr>frames_checked := frames_checked st2 + 1\<rparr>))"

fun quick_loop :: "video_capture \<Rightarrow> int \<Rightarrow> int list \<Rightarrow> quick_state \<Rightarrow> py_error + quick_state"
  where
  "quick_loop cap sample_frames [] st = Inr st"
| "quick_loop cap sample_frames (i # rest) st =
     (if frames_checked st \<ge> sample_frames then Inr st
      else case read_at cap i of
             None \<Rightarrow> Inr st
           | Some fr \<Rightarrow>
               (case quick_frame fr st of
                  Inl e \<Rightarrow> Inl e
                | Inr st' \<Rightarrow> quick_loop cap sample_frames rest st'))"

record quick_results =
  q_posture_score :: real
  q_eye_contact_score :: real
  q_confidence_score :: real

text \<open>
  The function after the check that the file exists. The capture is not tested with
  \<open>isOpened\<close> here; both divisions can raise.
\<close>

definition one_click_analysis :: "video_capture \<Rightarrow> py_error + quick_results" where
  "one_click_analysis cap =
     (let sample_frames = min 20 (total_frames cap) in
      if sample_frames = 0 then Inl ZeroDivisionError
      else let interval = max 1 (total_frames cap div sample_frames) in
        case quick_loop cap sample_frames (py_range_step (total_frames cap) interval)
               init_quick_state of
          Inl e \<Rightarrow> Inl e
        | Inr st \<Rightarrow>
            if frames_checked st = 0 then Inl ZeroDivisionError
            else let posture_score = (real_of_int (posture_count st) / real_of_int (frames_checked st)) * 100;
                     eye_contact_score =
                       (real_of_int (frontal_face_count st) / real_of_int (frames_checked st)) * 100
                 in Inr \<lparr>q_posture_score = posture_score,
                         q_eye_contact_score = eye_contact_score,
                         q_confidence_score = min 100 ((posture_score + eye_contact_score) / 2 + 15)\<rparr>)"

subsection \<open>The frames a loop processes\<close>

text \<open>
  The frames that a sampling loop reads before it stops, given the indices it visits, the
  cap on the number of frames and the number of frames counted so far.
\<close>

fun frames_read :: "video_capture \<Rightarrow> int \<Rightarrow> int list \<Rightarrow> int \<Rightarrow> frame list" where
  "frames_read cap target [] n = []"
| "frames_read cap target (i # rest) n =
     (if n \<ge> target then []
      else case read_at cap i of
             None \<Rightarrow> []
           | Some fr \<Rightarrow> fr # frames_read cap target rest (n + 1))"

text \<open>The frames that each of the two functions processes on a capture.\<close>

definition ultrafast_frames :: "video_capture \<Rightarrow> frame list" where
  "ultrafast_frames cap =
     frames_read cap (min 60 (total_frames cap))
       (py_range_step (total_frames cap)
          (max 1 (total_frames cap div min 60 (total_frames cap)))) 0"

definition one_click_frames :: "video_capture \<Rightarrow> frame list" where
  "one_click_frames cap =
     frames_read cap (min 20 (total_frames cap))
       (py_range_step (total_frames cap)
          (max 1 (total_frames cap div min 20 (total_frames cap)))) 0"

text \<open>The landmark lists of the frames in which a pose was detected.\<close>

definition detected_poses :: "frame list \<Rightarrow> landmark list list" where
  "detected_poses frs = List.map_filter pose_landmarks frs"

text \<open>The shoulder-alignment test of the specification.\<close>

definition shoulders_aligned :: "landmark list \<Rightarrow> bool" where
  "shoulders_aligned landmarks =
     (\<bar>lm_y (landmarks ! LEFT_SHOULDER) - lm_y (landmarks ! RIGHT_SHOULDER)\<bar> < 0.08)"

text \<open>The share of true samples in a non-empty list (the sample mean).\<close>

definition sample_mean :: "bool list \<Rightarrow> real" where
  "sample_mean samples = real (length (filter (\<lambda>b. b) samples)) / real (length samples)"

definition clamp_30_95 :: "real \<Rightarrow> real" where
  "clamp_30_95 r = (if r < 30 then 30 else if r > 95 then 95 else r)"

text \<open>
  MediaPipe returns 33 pose landmarks and at least 468 landmarks per face, so the indexing
  in the loops stays in range on its results.
\<close>

definition mediapipe_frame :: "frame \<Rightarrow> bool" where
  "mediapipe_frame fr =
     ((case pose_landmarks fr of None \<Rightarrow> True | Some lms \<Rightarrow> length lms = 33) \<and>
      (case multi_face_landmarks fr of None \<Rightarrow> True
       | Some faces \<Rightarrow> list_all (\<lambda>face. 468 \<le> length face) faces))"

definition mediapipe_capture :: "video_capture \<Rightarrow> bool" where
  "mediapipe_capture cap =
     list_all (\<lambda>r. case r of None \<Rightarrow> True | Some fr \<Rightarrow> mediapipe_frame fr) (frames cap)"

subsection \<open>A sample capture\<close>

text \<open>
  A pose result of 33 landmarks with the shoulders at heights \<open>ly\<close> and \<open>ry\<close>, and a
  capture of three frames: aligned shoulders, no pose, tilted shoulders.
\<close>

definition shoulders_at :: "real \<Rightarrow> real \<Rightarrow> landmark list" where
  "shoulders_at ly ry = (replicate 33 \<lparr>lm_x = 0.5, lm_y = 0.5\<rparr>)
      [11 := \<lparr>lm_x = 0.6, lm_y = ly\<rparr>, 12 := \<lparr>lm_x = 0.4, lm_y = ry\<rparr>]"

definition demo_capture :: video_capture where
  "demo_capture = \<lparr>isOpened = True, total_frames = 3,
     frames = [Some \<lparr>pose_landmarks = Some (shoulders_at 0.50 0.45), multi_face_landmarks = None\<rparr>,
               Some \<lparr>pose_landmarks = None, multi_face_landmarks = None\<rparr>,
               Some \<lparr>pose_landmarks = Some (shoulders_at 0.50 0.42), multi_face_landmarks = None\<rparr>]\<rparr>"

definition demo_results :: video_results where
  "demo_results = \<lparr>posture_score = 50, eye_contact_score = 60, confidence_score = 95,
     blinks_ok = True, gestures_ok = True, frames_analyzed = 3\<rparr>"

definition demo_quick_results :: quick_results where
  "demo_quick_results =
     \<lparr>q_posture_score = 100 / 3, q_eye_contact_score = 0, q_confidence_score = 100 / 6 + 15\<rparr>"

section \<open>Python strings\<close>

text \<open>
  A Python \<open>str\<close> is modelled as a \<open>string\<close> whose characters are the code points below
  256. Among these, \<open>str.isspace\<close> holds for the characters 9 to 13, 28 to 32, 133 and 160.
\<close>

definition py_isspace :: "char \<Rightarrow> bool" where
  "py_isspace c =
     (let n = (of_char c :: nat)
      in (9 \<le> n \<and> n \<le> 13) \<or> (28 \<le> n \<and> n \<le> 32) \<or> n = 133 \<or> n = 160)"

text \<open>\<open>str.strip()\<close>: drops the whitespace at both ends.\<close>

definition py_strip :: "string \<Rightarrow> string" where
  "py_strip s = rev (dropWhile py_isspace (rev (dropWhile py_isspace s)))"

text \<open>
  \<open>str.split()\<close> without arguments: the maximal runs of characters that are not
  whitespace. The first argument is the word collected so far.
\<close>

fun split_ws :: "string \<Rightarrow> string \<Rightarrow> string list" where
  "split_ws w [] = (if w = [] then [] else [w])"
| "split_ws w (c # cs) =
     (if py_isspace c then (if w = [] then split_ws [] cs else w # split_ws [] cs)
      else split_ws (w @ [c]) cs)"

definition py_split :: "string \<Rightarrow> string list" where
  "py_split s = split_ws [] s"

text \<open>
  \<open>str.lower()\<close> on the code points below 256: the letters A to Z and the accented capitals
  192 to 222 (without the multiplication sign 215) move up by 32, which sets the bit of
  value 32 (it is clear in all of them).
\<close>

definition py_isupper :: "char \<Rightarrow> bool" where
  "py_isupper c =
     (let n = (of_char c :: nat)
      in (65 \<le> n \<and> n \<le> 90) \<or> (192 \<le> n \<and> n \<le> 222 \<and> n \<noteq> 215))"

definition py_lower_char :: "char \<Rightarrow> char" where
  "py_lower_char c =
     (if py_isupper c
      then (case c of Char b0 b1 b2 b3 b4 b5 b6 b7 \<Rightarrow> Char b0 b1 b2 b3 b4 True b6 b7)
      else c)"

definition py_lower :: "string \<Rightarrow> string" where
  "py_lower s = map py_lower_char s"

text \<open>
  \<open>text.count(sub)\<close>: the number of non-overlapping occurrences of \<open>sub\<close>, found from the
  left; after a match the search resumes behind the matched text. For the empty \<open>sub\<close>
  Python returns the length plus one.
\<close>

function py_count :: "string \<Rightarrow> string \<Rightarrow> nat" where
  "py_count [] sub = (if sub = [] then 1 else 0)"
| "py_count (c # cs) sub =
     (if sub = [] then Suc (py_count cs sub)
      else if take (length sub) (c # cs) = sub
        then Suc (py_count (drop (length sub) (c # cs)) sub)
        else py_count cs sub)"
  by pat_completeness auto
termination
  by (relation "measure (\<lambda>(s, sub). length s)") auto

section \<open>Audio analysis (analysis.py)\<close>

text \<open>
  The libraries behind \<open>analyze_audio_ultrafast\<close>: the samples that \<open>librosa.load\<close> decodes
  from the file at 8000 Hz (before the limit of 60 seconds is applied), the text that the
  Whisper pipeline returns on a signal, and the fundamental frequencies that
  \<open>librosa.pyin\<close> estimates (\<open>None\<close> inside the list for NaN). Each is \<open>None\<close> when the call
  raises.
\<close>

record audio_env =
  decoded :: "real list option"
  whisper_pipe :: "real list \<Rightarrow> string option"
  pyin :: "real list \<Rightarrow> real option list option"

definition sr :: nat where "sr = 8000"

record audio_results =
  wpm :: real
  filler_count :: nat
  monotony :: string
  duration :: real

definition filler_words :: "string list" where
  "filler_words = ['' um '', '' uh '', '' like '', '' you know '', '' actually '', '' basically '']"

text \<open>\<open>np.std\<close>: the population standard deviation.\<close>

definition np_std :: "real list \<Rightarrow> real" where
  "np_std xs =
     (let n = real (length xs); m = sum_list xs / n
      in sqrt (sum_list (map (\<lambda>x. (x - m)\<^sup>2) xs) / n))"

text \<open>The part of the function from the transcript on.\<close>

definition audio_report :: "audio_env \<Rightarrow> real list \<Rightarrow> real \<Rightarrow> real \<Rightarrow> string \<Rightarrow> audio_results option"
  where
  "audio_report env y dur max_duration text =
     (let word_count = length (py_split text);
          wpm = (real word_count / max_duration) * 60;
          filler_count = sum_list (map (\<lambda>filler. py_count (py_lower text) filler) filler_words)
      in case pyin env y of
           None \<Rightarrow> None
         | Some f0 \<Rightarrow>
             let pitches = map the (filter (\<lambda>p. p \<noteq> None) f0);
                 pitch_variation = (if length pitches > 10 then np_std pitches else 0);
                 monotony = (if pitch_variation < 30 then ''High''
                             else if pitch_variation < 60 then ''Medium'' else ''Low'')
             in Some \<lparr>wpm = wpm, filler_count = filler_count, monotony = monotony,
                      duration = dur\<rparr>)"

text \<open>
  The whole function; \<open>None\<close> is returned for short audio, for an empty transcript and
  whenever a call raises (the \<open>except Exception\<close> handler).
\<close>

definition analyze_audio_ultrafast :: "audio_env \<Rightarrow> audio_results option" where
  "analyze_audio_ultrafast env =
     (case decoded env of
        None \<Rightarrow> None
      | Some samples \<Rightarrow>
          let y = take (60 * sr) samples;
              dur = real (length y) / real sr
          in if dur < 3 then None
             else let max_duration = min 30 dur;
                      y' = (if dur > 30 then take (30 * sr) y else y)
                  in case whisper_pipe env y' of
                       None \<Rightarrow> None
                     | Some raw \<Rightarrow>
                         let text = py_strip raw
                         in if text = [] then None
                            else audio_report env y' dur max_duration text)"

subsection \<open>Notions of the specification\<close>

text \<open>The number of positions of \<open>s\<close> at which \<open>sub\<close> occurs.\<close>

definition occurrences :: "string \<Rightarrow> string \<Rightarrow> nat" where
  "occurrences s sub = length (filter (\<lambda>i. take (length sub) (drop i s) = sub) [0 ..< length s])"

text \<open>The transcript that is analysed: Whisper's text on the first 30 seconds, stripped.\<close>

definition transcript :: "audio_env \<Rightarrow> string option" where
  "transcript env =
     (case decoded env of
        None \<Rightarrow> None
      | Some samples \<Rightarrow> map_option py_strip (whisper_pipe env (take (30 * sr) samples)))"

text \<open>The duration of the decoded audio in seconds.\<close>

definition audio_seconds :: "audio_env \<Rightarrow> real" where
  "audio_seconds env = (case decoded env of None \<Rightarrow> 0 | Some samples \<Rightarrow> real (length samples) / 8000)"

text \<open>Whether \<open>sub\<close> occurs in \<open>s\<close> at position \<open>i\<close>.\<close>

definition occurs_at :: "string \<Rightarrow> string \<Rightarrow> nat \<Rightarrow> bool" where
  "occurs_at s sub i = (take (length sub) (drop i s) = sub)"

text \<open>No two occurrences of \<open>sub\<close> in \<open>s\<close> share a character.\<close>

definition overlap_free :: "string \<Rightarrow> string \<Rightarrow> bool" where
  "overlap_free s sub =
     list_all (\<lambda>i. list_all (\<lambda>j. \<not> (occurs_at s sub i \<and> occurs_at s sub j))
                       [Suc i ..< i + length sub])
       [0 ..< length s]"

text \<open>The sum over the six filler strings of their occurrences in the lowercased text.\<close>

definition total_filler_occurrences :: "string \<Rightarrow> nat" where
  "total_filler_occurrences text =
     sum_list (map (\<lambda>filler. occurrences (py_lower text) filler) filler_words)"

subsection \<open>Sample recordings\<close>

text \<open>
  Forty seconds of silence on which Whisper, given the first thirty seconds, hears three
  words (and would hear six on any other signal); and four seconds with two adjacent
  fillers.
\<close>

definition long_audio :: audio_env where
  "long_audio =
     \<lparr>decoded = Some (replicate 320000 0),
      whisper_pipe = (\<lambda>y. if length y = 240000 then Some '' one two three ''
                           else Some ''one two three four five six''),
      pyin = (\<lambda>y. Some [])\<rparr>"

definition long_audio_results :: audio_results where
  "long_audio_results = \<lparr>wpm = 6, filler_count = 0, monotony = ''High'', duration = 40\<rparr>"

definition filler_audio :: "string \<Rightarrow> audio_env" where
  "filler_audio said =
     \<lparr>decoded = Some (replicate 32000 0), whisper_pipe = (\<lambda>y. Some said), pyin = (\<lambda>y. Some [])\<rparr>"

section \<open>Resume text extraction (resume.py)\<close>

text \<open>
  What \<open>page.extract_text()\<close> does on a page of the opened PDF: it raises, or it returns
  \<open>None\<close> or a string. \<open>pdfplumber.open\<close> applied to a path raises (\<open>None\<close>) or gives
  the pages.
\<close>

datatype page = PageRaises | PageText "string option"

type_synonym pdfplumber = "string \<Rightarrow> page list option"

text \<open>The loop over the pages; the first argument is the text collected so far.\<close>

fun extract_pages :: "string \<Rightarrow> page list \<Rightarrow> py_error + string" where
  "extract_pages text [] = Inr text"
| "extract_pages text (PageRaises # rest) = Inl OtherError"
| "extract_pages text (PageText None # rest) = extract_pages text rest"
| "extract_pages text (PageText (Some page_text) # rest) =
     (if page_text \<noteq> [] then extract_pages (text @ page_text @ [CHR 0x0A, CHR 0x0A]) rest
      else extract_pages text rest)"

definition extract_text_from_pdf :: "pdfplumber \<Rightarrow> string \<Rightarrow> string" where
  "extract_text_from_pdf pdf_open pdf_path =
     (case pdf_open pdf_path of
        None \<Rightarrow> []
      | Some pages \<Rightarrow>
          (case extract_pages [] pages of
             Inl e \<Rightarrow> []
           | Inr text \<Rightarrow> py_strip text))"

subsection \<open>Notions of the specification\<close>

text \<open>The texts of the pages that yield some text, in page order.\<close>

definition page_texts :: "page list \<Rightarrow> string list" where
  "page_texts pages =
     concat (map (\<lambda>p. case p of PageText (Some t) \<Rightarrow> (if t = [] then [] else [t]) | _ \<Rightarrow> []) pages)"

definition blank_line :: string where
  "blank_line = [CHR 0x0A, CHR 0x0A]"

section \<open>Answer evaluation (interview.py, interview_service.py)\<close>

text \<open>Parsed JSON, as \<open>json.loads\<close> returns it; an object is a list of key-value pairs.\<close>

datatype json =
    JNull
  | JBool bool
  | JInt int
  | JFloat real
  | JStr string
  | JList "json list"
  | JDict "(string \<times> json) list"

type_synonym json_dict = "(string \<times> json) list"

text \<open>\<open>k in d\<close> and \<open>d[k]\<close> on a dictionary.\<close>

definition has_key :: "json_dict \<Rightarrow> string \<Rightarrow> bool" where
  "has_key d k = (map_of d k \<noteq> None)"

definition dict_get :: "json_dict \<Rightarrow> string \<Rightarrow> json" where
  "dict_get d k = the (map_of d k)"

text \<open>\<open>sub in s\<close> on strings.\<close>

definition py_contains :: "string \<Rightarrow> string \<Rightarrow> bool" where
  "py_contains sub s = list_ex (\<lambda>i. take (length sub) (drop i s) = sub) [0 ..< Suc (length s)]"

text \<open>\<open>sep.join(xs)\<close>.\<close>

fun py_join :: "string \<Rightarrow> string list \<Rightarrow> string" where
  "py_join sep [] = []"
| "py_join sep [x] = x"
| "py_join sep (x # y # rest) = x @ sep @ py_join sep (y # rest)"

text \<open>\<open>s.find(c)\<close> and \<open>s.rfind(c)\<close> for a character: the index, or -1.\<close>

fun py_find :: "string \<Rightarrow> char \<Rightarrow> int" where
  "py_find [] c = -1"
| "py_find (x # xs) c =
     (if x = c then 0 else (let r = py_find xs c in if r = -1 then -1 else r + 1))"

definition py_rfind :: "string \<Rightarrow> char \<Rightarrow> int" where
  "py_rfind s c = (let r = py_find (rev s) c in if r = -1 then -1 else int (length s) - 1 - r)"

text \<open>\<open>s[a:b]\<close> for indices that are not negative.\<close>

definition py_slice :: "string \<Rightarrow> int \<Rightarrow> int \<Rightarrow> string" where
  "py_slice s a b = take (nat (b - a)) (drop (nat a) s)"

subsection \<open>get_info_from_gemini\<close>

text \<open>
  The generative-AI client and the libraries used on its response: whether the global
  \<open>model\<close> was configured; the text of the response to a prompt at a given attempt
  (\<open>None\<close> when the call raises); the group that the regular expression for a fenced JSON
  block finds in a text, if any; and \<open>json.loads\<close> (\<open>None\<close> when it raises). The text handed
  to \<open>json.loads\<close> always starts with an opening brace, so what it returns is an object.
\<close>

record gemini =
  model_available :: bool
  generate_content :: "string \<Rightarrow> nat \<Rightarrow> string option"
  fenced_json :: "string \<Rightarrow> string option"
  json_loads :: "string \<Rightarrow> json_dict option"

definition get_fallback_interview_plan :: json_dict where
  "get_fallback_interview_plan =
     [(''branch'', JStr ''Computer Science (Fallback)''),
      (''skills_summary'', JStr ''Programming, Problem Solving''),
      (''projects_summary'', JStr ''Software development projects''),
      (''question_bank'', JList
         [JDict [(''type'', JStr ''resume''),
                 (''question'', JStr ''Tell me about your most significant project.'')],
          JDict [(''type'', JStr ''core''),
                 (''question'', JStr ''Explain a core concept from Data Structures.'')],
          JDict [(''type'', JStr ''core''),
                 (''question'', JStr (''Write a simple SQL query to find all users from a ''
                    @ [CHR 0x27] @ ''users'' @ [CHR 0x27] @ '' table in '' @ [CHR 0x27]
                    @ ''New York'' @ [CHR 0x27] @ ''.''))],
          JDict [(''type'', JStr ''HR''),
                 (''question'', JStr ''Where do you see yourself in 5 years?'')]])]"

text \<open>The text passed to \<open>json.loads\<close>; \<open>None\<close> stands for the ValueError.\<close>

definition json_text_of :: "gemini \<Rightarrow> string \<Rightarrow> string option" where
  "json_text_of g text =
     (case fenced_json g text of
        Some json_match \<Rightarrow> Some json_match
      | None \<Rightarrow>
          if text \<noteq> [] \<and> hd text = CHR ''{'' \<and> last text = CHR ''}'' then Some text
          else let start_index = py_find text CHR ''{'';
                   end_index = py_rfind text CHR ''}'' + 1
               in if start_index \<noteq> -1 \<and> end_index \<noteq> 0
                  then Some (py_slice text start_index end_index)
                  else None)"

text \<open>The body of the \<open>try\<close> block at one attempt; \<open>None\<close> when it raises.\<close>

definition gemini_attempt :: "gemini \<Rightarrow> string \<Rightarrow> nat \<Rightarrow> json_dict option" where
  "gemini_attempt g prompt attempt =
     (case generate_content g prompt attempt of
        None \<Rightarrow> None
      | Some response_text \<Rightarrow>
          (case json_text_of g (py_strip response_text) of
             None \<Rightarrow> None
           | Some json_text \<Rightarrow> json_loads g json_text))"

text \<open>The retry loop over \<open>range(max_retries)\<close>.\<close>

fun gemini_retry :: "gemini \<Rightarrow> string \<Rightarrow> nat \<Rightarrow> nat list \<Rightarrow> json_dict option" where
  "gemini_retry g prompt max_retries [] = None"
| "gemini_retry g prompt max_retries (attempt # rest) =
     (case gemini_attempt g prompt attempt of
        Some result \<Rightarrow> Some result
      | None \<Rightarrow>
          if int attempt < int max_retries - 1 then gemini_retry g prompt max_retries rest
          else None)"

definition get_info_from_gemini :: "gemini \<Rightarrow> string \<Rightarrow> nat \<Rightarrow> json_dict option" where
  "get_info_from_gemini g prompt max_retries =
     (if \<not> model_available g then
        (if py_contains ''interview plan'' prompt then Some get_fallback_interview_plan else None)
      else gemini_retry g prompt max_retries [0 ..< max_retries])"

subsection \<open>evaluate_answer\<close>

record question =
  q_type :: string
  q_question :: string
  q_category :: string

record evaluation =
  score :: json
  feedback :: json
  suggestions :: json
  corrected_answer :: json
  keywords_matched :: json

definition keywords_context :: "string list option \<Rightarrow> string" where
  "keywords_context resume_keywords =
     (case resume_keywords of
        None \<Rightarrow> []
      | Some [] \<Rightarrow> []
      | Some kws \<Rightarrow>
          ''Pay special attention to these keywords from the resume: '' @ py_join '', '' kws @ ''.'')"

definition evaluation_prompt :: "question \<Rightarrow> string \<Rightarrow> string list option \<Rightarrow> string" where
  "evaluation_prompt q answer resume_keywords =
     [CHR 0x0A]
     @ ''    You are an expert interviewer. Evaluate this interview answer on a scale of 1-10.''
     @ [CHR 0x0A] @ ''    The response must be a valid JSON object.''
     @ [CHR 0x0A] @ ''    ''
     @ [CHR 0x0A] @ ''    Question: '' @ [CHR 0x22] @ q_question q @ [CHR 0x22]
     @ [CHR 0x0A] @ ''    Candidate'' @ [CHR 0x27] @ ''s Answer: '' @ [CHR 0x22] @ answer @ [CHR 0x22]
     @ [CHR 0x0A] @ ''    '' @ keywords_context resume_keywords
     @ [CHR 0x0A]
     @ [CHR 0x0A] @ ''    Provide a JSON response with these keys:''
     @ [CHR 0x0A] @ ''    - '' @ [CHR 0x22] @ ''score'' @ [CHR 0x22] @ '': An integer from 1 to 10.''
     @ [CHR 0x0A] @ ''    - '' @ [CHR 0x22] @ ''feedback'' @ [CHR 0x22]
     @ '': A concise, constructive paragraph on the answer'' @ [CHR 0x27]
     @ ''s strengths and weaknesses.''
     @ [CHR 0x0A] @ ''    - '' @ [CHR 0x22] @ ''suggestions'' @ [CHR 0x22]
     @ '': A short bulleted list (as a single string with '' @ [CHR 0x27, CHR 0x5C] @ ''n- ''
     @ [CHR 0x27] @ '') on how to improve.''
     @ [CHR 0x0A] @ ''    - '' @ [CHR 0x22] @ ''corrected_answer'' @ [CHR 0x22]
     @ '': An example of an ideal, well-structured answer to the question.''
     @ [CHR 0x0A] @ ''    - '' @ [CHR 0x22] @ ''keywords_matched'' @ [CHR 0x22]
     @ '': A list of keywords from the resume that were effectively addressed in the answer (if any).''
     @ [CHR 0x0A] @ ''    ''"

definition required_keys :: "string list" where
  "required_keys = [''score'', ''feedback'', ''suggestions'', ''corrected_answer'']"

definition evaluation_fields :: "string list" where
  "evaluation_fields = [''score'', ''feedback'', ''suggestions'', ''corrected_answer'', ''keywords_matched'']"

text \<open>
  \<open>Evaluation(**result)\<close>: the dataclass constructor raises TypeError on a keyword that is
  not one of its fields and on a missing field without default; \<open>keywords_matched\<close>
  defaults to \<open>None\<close>.
\<close>

definition make_evaluation :: "json_dict \<Rightarrow> py_error + evaluation" where
  "make_evaluation result =
     (if list_all (\<lambda>k. k \<in> set evaluation_fields) (map fst result) \<and>
         list_all (has_key result) required_keys
      then Inr \<lparr>score = dict_get result ''score'',
                feedback = dict_get result ''feedback'',
                suggestions = dict_get result ''suggestions'',
                corrected_answer = dict_get result ''corrected_answer'',
                keywords_matched =
                  (case map_of result ''keywords_matched'' of None \<Rightarrow> JNull | Some v \<Rightarrow> v)\<rparr>
      else Inl TypeError)"

definition fallback_evaluation :: evaluation where
  "fallback_evaluation =
     \<lparr>score = JInt 5,
      feedback = JStr ''Could not get AI evaluation. This is a fallback.'',
      suggestions = JStr (''- Try to be more specific.'' @ [CHR 0x0A] @ ''- Provide more detailed examples.''),
      corrected_answer = JStr ''An ideal answer would provide more detail and specific examples.'',
      keywords_matched = JList []\<rparr>"

definition evaluate_answer :: "gemini \<Rightarrow> question \<Rightarrow> string \<Rightarrow> string list option \<Rightarrow> py_error + evaluation"
  where
  "evaluate_answer g q answer resume_keywords =
     (case get_info_from_gemini g (evaluation_prompt q answer resume_keywords) 3 of
        None \<Rightarrow> Inr fallback_evaluation
      | Some result \<Rightarrow>
          if result \<noteq> [] \<and> list_all (has_key result) required_keys
          then make_evaluation
                 (if \<not> has_key result ''keywords_matched''
                  then result @ [(''keywords_matched'', JList [])] else result)
          else Inr fallback_evaluation)"

subsection \<open>InterviewService.evaluate_interview_answer\<close>

text \<open>Python truthiness of a parsed JSON value.\<close>

fun truthy :: "json \<Rightarrow> bool" where
  "truthy JNull = False"
| "truthy (JBool b) = b"
| "truthy (JInt i) = (i \<noteq> 0)"
| "truthy (JFloat r) = (r \<noteq> 0)"
| "truthy (JStr s) = (s \<noteq> [])"
| "truthy (JList xs) = (xs \<noteq> [])"
| "truthy (JDict d) = (d \<noteq> [])"

text \<open>
  The service builds the question from the request data (its \<open>get\<close> with a default),
  evaluates, and copies the five fields into a dictionary; any exception becomes the error
  of the returned pair, here \<open>Inl\<close>.
\<close>

definition get_default :: "(string \<times> string) list \<Rightarrow> string \<Rightarrow> string \<Rightarrow> string" where
  "get_default d k dflt = (case map_of d k of None \<Rightarrow> dflt | Some v \<Rightarrow> v)"

definition question_from_data :: "(string \<times> string) list \<Rightarrow> question" where
  "question_from_data question_data =
     \<lparr>q_type = get_default question_data ''type'' ''general'',
      q_question = get_default question_data ''question'' [],
      q_category = get_default question_data ''category'' ''general''\<rparr>"

definition evaluate_interview_answer ::
  "gemini \<Rightarrow> (string \<times> string) list \<Rightarrow> string \<Rightarrow> string list option \<Rightarrow> py_error + evaluation"
  where
  "evaluate_interview_answer g question_data answer resume_keywords =
     (case evaluate_answer g (question_from_data question_data) answer resume_keywords of
        Inl e \<Rightarrow> Inl e
      | Inr ev \<Rightarrow>
          Inr (ev\<lparr>keywords_matched :=
                     (if truthy (keywords_matched ev) then keywords_matched ev else JList [])\<rparr>))"

subsection \<open>Notions of the specification\<close>

text \<open>
  The parsed response of the API call: the object parsed at the first attempt that does
  not raise, among the three attempts made.
\<close>

definition api_response :: "gemini \<Rightarrow> string \<Rightarrow> json_dict option" where
  "api_response g prompt =
     (case gemini_attempt g prompt 0 of
        Some r \<Rightarrow> Some r
      | None \<Rightarrow>
          (case gemini_attempt g prompt 1 of
             Some r \<Rightarrow> Some r
           | None \<Rightarrow> gemini_attempt g prompt 2))"

text \<open>A response that carries an evaluation: the four required keys and no foreign key.\<close>

definition evaluation_response :: "json_dict \<Rightarrow> bool" where
  "evaluation_response r =
     (list_all (has_key r) required_keys \<and>
      list_all (\<lambda>k. k \<in> set evaluation_fields) (map fst r))"

text \<open>The evaluation read off such a response, with the empty list for absent keywords.\<close>

definition evaluation_of_response :: "json_dict \<Rightarrow> evaluation" where
  "evaluation_of_response r =
     \<lparr>score = dict_get r ''score'',
      feedback = dict_get r ''feedback'',
      suggestions = dict_get r ''suggestions'',
      corrected_answer = dict_get r ''corrected_answer'',
      keywords_matched =
        (case map_of r ''keywords_matched'' of None \<Rightarrow> JList [] | Some v \<Rightarrow> v)\<rparr>"

text \<open>The service's replacement of absent or empty keywords by the empty list.\<close>

definition keywords_or_empty :: "evaluation \<Rightarrow> evaluation" where
  "keywords_or_empty ev =
     ev\<lparr>keywords_matched := (if truthy (keywords_matched ev) then keywords_matched ev else JList [])\<rparr>"

subsection \<open>Sample clients\<close>

text \<open>A client whose calls all raise, and one that answers with a fixed object.\<close>

definition failing_gemini :: gemini where
  "failing_gemini =
     \<lparr>model_available = True, generate_content = (\<lambda>p n. None),
      fenced_json = (\<lambda>t. None), json_loads = (\<lambda>t. None)\<rparr>"

definition sample_response :: json_dict where
  "sample_response =
     [(''score'', JInt 8), (''feedback'', JStr ''Clear.''), (''suggestions'', JStr ''- More detail''),
      (''corrected_answer'', JStr ''Better.'')]"

definition answering_gemini :: gemini where
  "answering_gemini =
     \<lparr>model_available = True, generate_content = (\<lambda>p n. Some ''{}''),
      fenced_json = (\<lambda>t. None), json_loads = (\<lambda>t. Some sample_response)\<rparr>"

definition sample_question :: question where
  "sample_question = \<lparr>q_type = ''HR'', q_question = ''Why us?'', q_category = ''general''\<rparr>"

section \<open>JWT middleware (auth_middleware.py)\<close>

text \<open>\<open>s.split(sep)\<close> for a one-character separator; the first argument collects a piece.\<close>

fun split_on :: "char \<Rightarrow> string \<Rightarrow> string \<Rightarrow> string list" where
  "split_on sep piece [] = [piece]"
| "split_on sep piece (c # cs) =
     (if c = sep then piece # split_on sep [] cs else split_on sep (piece @ [c]) cs)"

definition py_split_sep :: "string \<Rightarrow> char \<Rightarrow> string list" where
  "py_split_sep s sep = split_on sep [] s"

text \<open>
  What \<open>jwt.decode(token, key, algorithms=["HS256"])\<close> does on a token: it raises
  ExpiredSignatureError, or another InvalidTokenError, or returns the payload.
\<close>

datatype jwt_outcome = ExpiredSignatureError | InvalidTokenError | Payload json_dict

type_synonym jwt_decode = "string \<Rightarrow> jwt_outcome"

text \<open>
  The decorated route function either answers itself, with a status and an error message,
  or returns what the route handler returns on the user id.
\<close>

datatype 'r decorated = Rejected nat string | Invoked 'r

text \<open>
  The request is represented by the value of its Authorization header, if it has one. An
  exception that the decorator does not catch is \<open>Inl\<close>.
\<close>

definition token_required ::
  "jwt_decode \<Rightarrow> (json \<Rightarrow> 'r) \<Rightarrow> string option \<Rightarrow> py_error + 'r decorated" where
  "token_required decode f authorization =
     (case (case authorization of
              None \<Rightarrow> Inr None
            | Some auth_header \<Rightarrow>
                (case py_index (py_split_sep auth_header CHR '' '') 1 of
                   Inl e \<Rightarrow> Inl (Rejected 401 ''Invalid token format'')
                 | Inr t \<Rightarrow> Inr (Some t))) of
        Inl response \<Rightarrow> Inr response
      | Inr token \<Rightarrow>
          (case token of
             None \<Rightarrow> Inr (Rejected 401 ''Token is missing'')
           | Some t \<Rightarrow>
               if t = [] then Inr (Rejected 401 ''Token is missing'')
               else (case decode t of
                       ExpiredSignatureError \<Rightarrow> Inr (Rejected 401 ''Token has expired'')
                     | InvalidTokenError \<Rightarrow> Inr (Rejected 401 ''Invalid token'')
                     | Payload data \<Rightarrow>
                         (case map_of data ''user_id'' of
                            None \<Rightarrow> Inl KeyError
                          | Some current_user_id \<Rightarrow> Inr (Invoked (f current_user_id))))))"

subsection \<open>Notions of the specification\<close>

text \<open>The token of a request: the second piece of the header split at spaces, if any.\<close>

definition bearer_token :: "string option \<Rightarrow> string option" where
  "bearer_token authorization =
     (case authorization of
        None \<Rightarrow> None
      | Some h \<Rightarrow> (case py_split_sep h CHR '' '' of _ # t # _ \<Rightarrow> Some t | _ \<Rightarrow> None))"

subsection \<open>A sample token\<close>

text \<open>
  A decoder that accepts one token, correctly signed and not expired, whose payload has an
  expiry but no user id.
\<close>

definition anonymous_decode :: jwt_decode where
  "anonymous_decode t = (if t = ''signed'' then Payload [(''exp'', JInt 4102444800)] else InvalidTokenError)"

section \<open>Files on the server (file_handler.py)\<close>

text \<open>
  The file system as the routes see it: the paths that exist, the paths that cannot be
  read, and what the next calls of \<open>os.remove\<close> on an existing file will do (it removes
  the file, raises PermissionError, or raises another error; once the list is used up every
  call removes the file).
\<close>

datatype remove_outcome = Removed | PermissionDenied | RemoveFails

record filesystem =
  files :: "string list"
  unreadable :: "string list"
  removals :: "remove_outcome list"

definition path_exists :: "filesystem \<Rightarrow> string \<Rightarrow> bool" where
  "path_exists fs p = (p \<in> set (files fs))"

definition os_remove :: "filesystem \<Rightarrow> string \<Rightarrow> remove_outcome \<times> filesystem" where
  "os_remove fs p =
     (case removals fs of
        [] \<Rightarrow> (Removed, fs\<lparr>files := removeAll p (files fs)\<rparr>)
      | Removed # rest \<Rightarrow> (Removed, fs\<lparr>files := removeAll p (files fs), removals := rest\<rparr>)
      | r # rest \<Rightarrow> (r, fs\<lparr>removals := rest\<rparr>))"

text \<open>The retry loop of \<open>delete_file\<close> over \<open>range(5)\<close>; the pauses are not modelled.\<close>

fun delete_attempts :: "nat list \<Rightarrow> filesystem \<Rightarrow> string \<Rightarrow> bool \<times> filesystem" where
  "delete_attempts [] fs file_path = (False, fs)"
| "delete_attempts (attempt # rest) fs file_path =
     (case os_remove fs file_path of
        (Removed, fs') \<Rightarrow> (True, fs')
      | (PermissionDenied, fs') \<Rightarrow>
          if attempt = 4 then (False, fs') else delete_attempts rest fs' file_path
      | (RemoveFails, fs') \<Rightarrow> (False, fs'))"

definition delete_file :: "filesystem \<Rightarrow> string \<Rightarrow> bool \<times> filesystem" where
  "delete_file fs file_path =
     (if file_path = [] \<or> \<not> path_exists fs file_path then (False, fs)
      else delete_attempts [0 ..< 5] fs file_path)"

section \<open>Analysis records and their routes (models/analysis.py, routes/analysis.py)\<close>

text \<open>
  A document of the \<open>analyses\<close> collection, as \<open>create_analysis\<close> writes it; the id is the
  ObjectId. \<open>ObjectId(s)\<close> raises on a string that is not an id, which is \<open>None\<close> here.
\<close>

record analysis_doc =
  a_id :: nat
  a_user_id :: string
  a_type :: string
  a_data :: json
  a_report_path :: "string option"

type_synonym object_id_parser = "string \<Rightarrow> nat option"

record server =
  analyses :: "analysis_doc list"
  fs :: filesystem

datatype response = JsonResponse nat string | FileResponse string

definition get_analysis_by_id :: "object_id_parser \<Rightarrow> analysis_doc list \<Rightarrow> string \<Rightarrow> analysis_doc option"
  where
  "get_analysis_by_id ObjectId docs analysis_id =
     (case ObjectId analysis_id of
        None \<Rightarrow> None
      | Some oid \<Rightarrow> find (\<lambda>d. a_id d = oid) docs)"

text \<open>\<open>delete_one\<close>: removes the first document that matches.\<close>

fun delete_one :: "('a \<Rightarrow> bool) \<Rightarrow> 'a list \<Rightarrow> nat \<times> 'a list" where
  "delete_one P [] = (0, [])"
| "delete_one P (d # ds) =
     (if P d then (1, ds) else (let (n, ds') = delete_one P ds in (n, d # ds')))"

definition Analysis_delete_analysis ::
  "object_id_parser \<Rightarrow> analysis_doc list \<Rightarrow> string \<Rightarrow> string \<Rightarrow> bool \<times> analysis_doc list" where
  "Analysis_delete_analysis ObjectId docs analysis_id user_id =
     (case ObjectId analysis_id of
        None \<Rightarrow> (False, docs)
      | Some oid \<Rightarrow>
          (let (deleted_count, docs') = delete_one (\<lambda>d. a_id d = oid \<and> a_user_id d = user_id) docs
           in (deleted_count > 0, docs')))"

definition download_report :: "object_id_parser \<Rightarrow> server \<Rightarrow> string \<Rightarrow> string \<Rightarrow> response" where
  "download_report ObjectId st current_user_id analysis_id =
     (case get_analysis_by_id ObjectId (analyses st) analysis_id of
        None \<Rightarrow> JsonResponse 404 ''Analysis not found''
      | Some analysis \<Rightarrow>
          if a_user_id analysis \<noteq> current_user_id then JsonResponse 403 ''Unauthorized access''
          else (case a_report_path analysis of
                  None \<Rightarrow> JsonResponse 404 ''Report not found''
                | Some report_path \<Rightarrow>
                    if report_path = [] \<or> \<not> path_exists (fs st) report_path
                    then JsonResponse 404 ''Report not found''
                    else if report_path \<in> set (unreadable (fs st))
                    then JsonResponse 500 ''Download failed''
                    else FileResponse report_path))"

definition delete_analysis :: "object_id_parser \<Rightarrow> server \<Rightarrow> string \<Rightarrow> string \<Rightarrow> response \<times> server"
  where
  "delete_analysis ObjectId st current_user_id analysis_id =
     (case get_analysis_by_id ObjectId (analyses st) analysis_id of
        None \<Rightarrow> (JsonResponse 404 ''Analysis not found or unauthorized'', st)
      | Some analysis \<Rightarrow>
          if a_user_id analysis = current_user_id then
            (let fs1 = (case a_report_path analysis of
                          None \<Rightarrow> fs st
                        | Some report_path \<Rightarrow>
                            if report_path \<noteq> [] then snd (delete_file (fs st) report_path)
                            else fs st);
                 (success, docs') =
                   Analysis_delete_analysis ObjectId (analyses st) analysis_id current_user_id;
                 st' = st\<lparr>analyses := docs', fs := fs1\<rparr>
             in if success then (JsonResponse 200 ''Analysis deleted successfully'', st')
                else (JsonResponse 400 ''Deletion failed'', st'))
          else (JsonResponse 404 ''Analysis not found or unauthorized'', st))"

subsection \<open>Notions of the specification\<close>

text \<open>The records that do not belong to a user.\<close>

definition records_of_others :: "string \<Rightarrow> analysis_doc list \<Rightarrow> analysis_doc list" where
  "records_of_others user_id docs = filter (\<lambda>d. a_user_id d \<noteq> user_id) docs"

subsection \<open>A sample server\<close>

text \<open>Two records of two users, each with a report on disk; ids are decimal digits.\<close>

definition digit_id :: object_id_parser where
  "digit_id s = (if s = ''1'' then Some 1 else if s = ''2'' then Some 2 else None)"

definition two_users :: server where
  "two_users =
     \<lparr>analyses =
        [\<lparr>a_id = 1, a_user_id = ''ann'', a_type = ''video'', a_data = JNull,
          a_report_path = Some ''r1.docx''\<rparr>,
         \<lparr>a_id = 2, a_user_id = ''bob'', a_type = ''video'', a_data = JNull,
          a_report_path = Some ''r2.docx''\<rparr>],
      fs = \<lparr>files = [''r1.docx'', ''r2.docx''], unreadable = [], removals = []\<rparr>\<rparr>"

section \<open>Video upload route (file_handler.py, routes/analysis.py)\<close>

text \<open>\<open>s.rsplit('.', 1)[1]\<close>: the text behind the last dot; IndexError without a dot.\<close>

definition after_last_dot :: "string \<Rightarrow> py_error + string" where
  "after_last_dot s =
     (if CHR ''.'' \<in> set s then Inr (rev (takeWhile (\<lambda>c. c \<noteq> CHR ''.'') (rev s)))
      else Inl IndexError)"

definition ALLOWED_EXTENSIONS :: "string list" where
  "ALLOWED_EXTENSIONS = [''pdf'', ''mp4'', ''avi'', ''mov'', ''mkv'']"

definition allowed_file :: "string \<Rightarrow> bool" where
  "allowed_file filename =
     (CHR ''.'' \<in> set filename \<and>
      (case after_last_dot filename of
         Inl e \<Rightarrow> False
       | Inr ext \<Rightarrow> py_lower ext \<in> set ALLOWED_EXTENSIONS))"

text \<open>\<open>os.path.join\<close> of a directory and a relative name.\<close>

definition path_join :: "string \<Rightarrow> string \<Rightarrow> string" where
  "path_join a b = (if a = [] then b else if last a = CHR ''/'' then a @ b else a @ ''/'' @ b)"

text \<open>
  What the route depends on besides the stored state: werkzeug's \<open>secure_filename\<close>, the
  hexadecimal uuid drawn for the upload, the upload folder, whether writing the upload
  raises, the analysis service (given the existing paths and the path of the video, it
  returns results, report path and error and the paths that exist afterwards; it never
  raises), the summary of results (\<open>None\<close> when it raises), whether the database insert
  raises, the id given to a new record, and \<open>str(e)\<close> of an exception.
\<close>

record video_env =
  secure_filename :: "string \<Rightarrow> string"
  uuid4_hex :: string
  UPLOAD_FOLDER :: string
  save_raises :: bool
  analysis_service ::
    "string list \<Rightarrow> string \<Rightarrow> (json option \<times> string option \<times> string option) \<times> string list"
  get_analysis_summary :: "json \<Rightarrow> string option"
  insert_raises :: bool
  inserted_id :: nat
  error_text :: "py_error \<Rightarrow> string"

record upload =
  filename :: string

definition save_file ::
  "video_env \<Rightarrow> filesystem \<Rightarrow> upload \<Rightarrow> string \<Rightarrow>
     py_error + ((string option \<times> string option) \<times> filesystem)" where
  "save_file env fs0 file subfolder =
     (if filename file = [] \<or> \<not> allowed_file (filename file)
      then Inr ((None, Some ''Invalid file type''), fs0)
      else let original_filename = secure_filename env (filename file) in
        case after_last_dot original_filename of
          Inl e \<Rightarrow> Inl e
        | Inr ext \<Rightarrow>
            let extension = py_lower ext;
                unique_filename = uuid4_hex env @ ''.'' @ extension;
                upload_path = (if subfolder \<noteq> [] then path_join (UPLOAD_FOLDER env) subfolder
                               else UPLOAD_FOLDER env);
                file_path = path_join upload_path unique_filename
            in if save_raises env then Inl OtherError
               else Inr ((Some file_path, None),
                         fs0\<lparr>files := file_path # removeAll file_path (files fs0)\<rparr>))"

text \<open>
  The inner \<open>try\<close> block of the route, up to its \<open>return\<close> or the exception that leaves it
  (\<open>Inl\<close>); the record inserted before a later exception stays. The usage counter that
  the block increments lives in the users collection and is not part of this state.
\<close>

definition analyze_saved_video ::
  "video_env \<Rightarrow> analysis_doc list \<Rightarrow> filesystem \<Rightarrow> string \<Rightarrow> string \<Rightarrow>
     (py_error + response) \<times> analysis_doc list \<times> filesystem" where
  "analyze_saved_video env docs fs0 current_user_id video_path =
     (case analysis_service env (files fs0) video_path of
        ((results, report_path, error), files1) \<Rightarrow>
          let fs1 = fs0\<lparr>files := files1\<rparr> in
          if error \<noteq> None \<and> error \<noteq> Some []
          then (Inr (JsonResponse 500 (''Analysis failed: '' @ the error)), docs, fs1)
          else if insert_raises env then (Inl OtherError, docs, fs1)
          else let analysis_record =
                     \<lparr>a_id = inserted_id env, a_user_id = current_user_id, a_type = ''video'',
                      a_data = (case results of None \<Rightarrow> JNull | Some r \<Rightarrow> r),
                      a_report_path = report_path\<rparr>;
                   docs' = docs @ [analysis_record]
               in case results of
                    None \<Rightarrow> (Inl AttributeError, docs', fs1)
                  | Some r \<Rightarrow>
                      (case get_analysis_summary env r of
                         None \<Rightarrow> (Inl OtherError, docs', fs1)
                       | Some summary \<Rightarrow>
                           (Inr (JsonResponse 200 ''Video analysis completed successfully''),
                            docs', fs1)))"

text \<open>The \<open>finally\<close> block.\<close>

definition cleanup_upload :: "filesystem \<Rightarrow> string \<Rightarrow> filesystem" where
  "cleanup_upload fs1 video_path =
     (if path_exists fs1 video_path then snd (delete_file fs1 video_path) else fs1)"

text \<open>The route, for an authenticated user; the request is its \<open>video\<close> file, if any.\<close>

definition analyze_video :: "video_env \<Rightarrow> server \<Rightarrow> string \<Rightarrow> upload option \<Rightarrow> response \<times> server"
  where
  "analyze_video env st current_user_id video =
     (case video of
        None \<Rightarrow> (JsonResponse 400 ''No video file provided'', st)
      | Some video_file \<Rightarrow>
          if filename video_file = [] then (JsonResponse 400 ''No file selected'', st)
          else (case save_file env (fs st) video_file ''videos'' of
                  Inl e \<Rightarrow> (JsonResponse 500 (''Analysis failed: '' @ error_text env e), st)
                | Inr ((video_path, Some error), fs0) \<Rightarrow>
                    if error \<noteq> [] then (JsonResponse 400 error, st\<lparr>fs := fs0\<rparr>)
                    else (JsonResponse 500 (''Analysis failed: '' @ error_text env TypeError),
                          st\<lparr>fs := fs0\<rparr>)
                | Inr ((None, None), fs0) \<Rightarrow>
                    (JsonResponse 500 (''Analysis failed: '' @ error_text env TypeError),
                     st\<lparr>fs := fs0\<rparr>)
                | Inr ((Some video_path, None), fs0) \<Rightarrow>
                    (case analyze_saved_video env (analyses st) fs0 current_user_id video_path of
                       (outcome, docs', fs1) \<Rightarrow>
                         let fs2 = cleanup_upload fs1 video_path;
                             st' = \<lparr>analyses = docs', fs = fs2\<rparr>
                         in case outcome of
                              Inl e \<Rightarrow>
                                (JsonResponse 500 (''Analysis failed: '' @ error_text env e), st')
                            | Inr resp \<Rightarrow> (resp, st'))))"

subsection \<open>Notions of the specification\<close>

text \<open>
  A server that differs only in what the next removals will do.
\<close>

definition with_removals :: "server \<Rightarrow> remove_outcome list \<Rightarrow> server" where
  "with_removals st rs = st\<lparr>fs := (fs st)\<lparr>removals := rs\<rparr>\<rparr>"

text \<open>
  Whether one of at most \<open>n\<close> attempts to remove a file succeeds, given what the next calls
  of \<open>os.remove\<close> do: a PermissionError leads to the next attempt, another error ends them.
\<close>

fun removal_succeeds :: "nat \<Rightarrow> remove_outcome list \<Rightarrow> bool" where
  "removal_succeeds 0 rs = False"
| "removal_succeeds (Suc n) [] = True"
| "removal_succeeds (Suc n) (Removed # rs) = True"
| "removal_succeeds (Suc n) (PermissionDenied # rs) = removal_succeeds n rs"
| "removal_succeeds (Suc n) (RemoveFails # rs) = False"

subsection \<open>A sample upload\<close>

text \<open>
  A service that succeeds and leaves the files alone, on a server where the uploaded file
  stays locked: every removal raises PermissionError.
\<close>

definition locked_env :: video_env where
  "locked_env =
     \<lparr>secure_filename = (\<lambda>s. s), uuid4_hex = ''ab12'', UPLOAD_FOLDER = ''uploads'',
      save_raises = False,
      analysis_service =
        (\<lambda>paths p. ((Some (JInt 70), Some ''uploads/videos/report.docx'', None), paths)),
      get_analysis_summary = (\<lambda>r. Some ''ok''),
      insert_raises = False, inserted_id = 7, error_text = (\<lambda>e. ''error'')\<rparr>"

definition locked_server :: server where
  "locked_server =
     \<lparr>analyses = [],
      fs = \<lparr>files = [], unreadable = [], removals = replicate 5 PermissionDenied\<rparr>\<rparr>"

definition unlocked_server :: server where
  "unlocked_server =
     \<lparr>analyses = [],
      fs = \<lparr>files = [], unreadable = [], removals = [PermissionDenied, Removed]\<rparr>\<rparr>"

section \<open>User accounts (models/user.py, routes/auth.py)\<close>

text \<open>
  A value stored in a MongoDB document: JSON data, bytes, a date, an ObjectId or an
  embedded document. A document is a list of fields; \<open>map_of\<close> looks a field up.
\<close>

datatype bson =
    BJson json
  | BBytes string
  | BDate nat
  | BObjectId nat
  | BDoc "(string \<times> bson) list"

type_synonym doc = "(string \<times> bson) list"

text \<open>
  What the account code depends on: \<open>ObjectId(s)\<close> (\<open>None\<close> when it raises) and \<open>str\<close> of
  an ObjectId; \<open>bcrypt.hashpw\<close> of a password and a salt; werkzeug's comparison of a
  password with the three parts of a stored hash and its \<open>generate_password_hash\<close> (\<open>None\<close>
  when they raise); and \<open>str(e)\<close> of an exception.
\<close>

record auth_env =
  object_id :: "string \<Rightarrow> nat option"
  str_of_id :: "nat \<Rightarrow> string"
  bcrypt_hashpw :: "string \<Rightarrow> string \<Rightarrow> string"
  hash_matches :: "string \<Rightarrow> string \<Rightarrow> string \<Rightarrow> json \<Rightarrow> bool option"
  generate_password_hash :: "json \<Rightarrow> string option"
  auth_error_text :: "py_error \<Rightarrow> string"

text \<open>
  What one registration draws: the id that \<open>insert_one\<close> assigns, the time of
  \<open>datetime.utcnow()\<close> and the salt of \<open>bcrypt.gensalt()\<close>.
\<close>

record registration =
  inserted_id_of :: nat
  registered_at :: nat
  gensalt :: string

record auth_state =
  users :: "doc list"
  user_analyses :: "analysis_doc list"
  stored_files :: "string list"

subsection \<open>The User model\<close>

definition find_one :: "string \<Rightarrow> bson \<Rightarrow> doc list \<Rightarrow> doc option" where
  "find_one field v docs = find (\<lambda>d. map_of d field = Some v) docs"

text \<open>\<open>update_one\<close>: changes the first document that matches.\<close>

fun update_first :: "(doc \<Rightarrow> bool) \<Rightarrow> (doc \<Rightarrow> doc) \<Rightarrow> doc list \<Rightarrow> doc list" where
  "update_first P f [] = []"
| "update_first P f (d # ds) = (if P d then f d # ds else d # update_first P f ds)"

text \<open>\<open>_serialize_user\<close> on a document found by its ObjectId.\<close>

definition serialize_user :: "auth_env \<Rightarrow> nat \<Rightarrow> doc \<Rightarrow> doc" where
  "serialize_user env oid user =
     AList.delete ''password'' (AList.update ''_id'' (BJson (JStr (str_of_id env oid))) user)"

definition create_user ::
  "auth_env \<Rightarrow> registration \<Rightarrow> doc list \<Rightarrow> string \<Rightarrow> string \<Rightarrow> string \<Rightarrow>
     (doc option \<times> string option) \<times> doc list"
  where
  "create_user env reg docs email password full_name =
     (case find_one ''email'' (BJson (JStr (py_lower email))) docs of
        Some existing \<Rightarrow> ((None, Some ''User already exists''), docs)
      | None \<Rightarrow>
          let hashed_password = bcrypt_hashpw env password (gensalt reg);
              user_data =
                [(''email'', BJson (JStr (py_lower email))),
                 (''password'', BBytes hashed_password),
                 (''full_name'', BJson (JStr full_name)),
                 (''created_at'', BDate (registered_at reg)),
                 (''updated_at'', BDate (registered_at reg)),
                 (''profile'', BDoc [(''phone'', BJson (JStr [])), (''linkedin'', BJson (JStr [])),
                                     (''location'', BJson (JStr []))]),
                 (''subscription'', BDoc [(''plan'', BJson (JStr ''free'')),
                                          (''analyses_used'', BJson (JInt 0)),
                                          (''analyses_limit'', BJson (JInt 5))]),
                 (''_id'', BObjectId (inserted_id_of reg))]
          in ((Some (serialize_user env (inserted_id_of reg) user_data), None),
              docs @ [user_data]))"

definition get_user_by_id :: "auth_env \<Rightarrow> doc list \<Rightarrow> string \<Rightarrow> doc option" where
  "get_user_by_id env docs user_id =
     (case object_id env user_id of
        None \<Rightarrow> None
      | Some oid \<Rightarrow>
          (case find_one ''_id'' (BObjectId oid) docs of
             None \<Rightarrow> None
           | Some user \<Rightarrow> Some (serialize_user env oid user)))"

text \<open>
  \<open>update_user\<close> at a given time: sets the given top-level fields and \<open>updated_at\<close> on
  the user's document.
  Its callers, the profile update and the photo upload, pass only the fields
  \<open>full_name\<close> and \<open>profile\<close>.
\<close>

definition set_fields :: "(string \<times> bson) list \<Rightarrow> doc \<Rightarrow> doc" where
  "set_fields update_data d = foldl (\<lambda>acc (k, v). AList.update k v acc) d update_data"

definition update_user ::
  "auth_env \<Rightarrow> nat \<Rightarrow> doc list \<Rightarrow> string \<Rightarrow> (string \<times> bson) list \<Rightarrow> doc option \<times> doc list"
  where
  "update_user env utcnow docs user_id update_data =
     (case object_id env user_id of
        None \<Rightarrow> (None, docs)
      | Some oid \<Rightarrow>
          let docs' = update_first (\<lambda>d. map_of d ''_id'' = Some (BObjectId oid))
                        (set_fields (AList.update ''updated_at'' (BDate utcnow) update_data))
                        docs
          in (get_user_by_id env docs' user_id, docs'))"

definition allowed_fields :: "string list" where
  "allowed_fields = [''full_name'', ''profile'']"

text \<open>
  \<open>increment_analyses_count\<close>: \<open>$inc\<close> on \<open>subscription.analyses_used\<close>; where the update
  raises, nothing changes.
\<close>

definition inc_analyses_used :: "doc \<Rightarrow> doc" where
  "inc_analyses_used d =
     (case map_of d ''subscription'' of
        None \<Rightarrow> AList.update ''subscription'' (BDoc [(''analyses_used'', BJson (JInt 1))]) d
      | Some (BDoc sub) \<Rightarrow>
          (case map_of sub ''analyses_used'' of
             None \<Rightarrow>
               AList.update ''subscription''
                 (BDoc (AList.update ''analyses_used'' (BJson (JInt 1)) sub)) d
           | Some (BJson (JInt n)) \<Rightarrow>
               AList.update ''subscription''
                 (BDoc (AList.update ''analyses_used'' (BJson (JInt (n + 1))) sub)) d
           | Some other \<Rightarrow> d)
      | Some other \<Rightarrow> d)"

definition increment_analyses_count :: "auth_env \<Rightarrow> doc list \<Rightarrow> string \<Rightarrow> doc list" where
  "increment_analyses_count env docs user_id =
     (case object_id env user_id of
        None \<Rightarrow> docs
      | Some oid \<Rightarrow>
          update_first (\<lambda>d. map_of d ''_id'' = Some (BObjectId oid)) inc_analyses_used docs)"

subsection \<open>Password verification\<close>

text \<open>
  werkzeug's \<open>check_password_hash\<close>: a stored hash that does not consist of method, salt
  and hash value separated by dollar signs never matches.
\<close>

definition check_password_hash :: "auth_env \<Rightarrow> string \<Rightarrow> json \<Rightarrow> py_error + bool" where
  "check_password_hash env pwhash password =
     (case py_split_sep pwhash CHR ''$'' of
        method # salt # h # rest \<Rightarrow>
          (case hash_matches env method salt (py_join ''$'' (h # rest)) password of
             None \<Rightarrow> Inl TypeError
           | Some b \<Rightarrow> Inr b)
      | _ \<Rightarrow> Inr False)"

text \<open>\<open>user.get('password_hash', '')\<close> handed to the check.\<close>

definition verify_password :: "auth_env \<Rightarrow> doc \<Rightarrow> json \<Rightarrow> py_error + bool" where
  "verify_password env user password =
     (case map_of user ''password_hash'' of
        None \<Rightarrow> check_password_hash env [] password
      | Some (BJson (JStr pwhash)) \<Rightarrow> check_password_hash env pwhash password
      | Some other \<Rightarrow> Inl AttributeError)"

subsection \<open>The request body\<close>

datatype request_json = GetJsonRaises | GetJson json

text \<open>\<open>k in data\<close>, \<open>data[k]\<close> and \<open>len(v)\<close> on parsed JSON.\<close>

fun py_in :: "string \<Rightarrow> json \<Rightarrow> py_error + bool" where
  "py_in k (JDict d) = Inr (has_key d k)"
| "py_in k (JList xs) = Inr (JStr k \<in> set xs)"
| "py_in k (JStr s) = Inr (py_contains k s)"
| "py_in k other = Inl TypeError"

fun py_getitem :: "json \<Rightarrow> string \<Rightarrow> py_error + json" where
  "py_getitem (JDict d) k = (case map_of d k of None \<Rightarrow> Inl KeyError | Some v \<Rightarrow> Inr v)"
| "py_getitem other k = Inl TypeError"

fun py_len :: "json \<Rightarrow> py_error + nat" where
  "py_len (JStr s) = Inr (length s)"
| "py_len (JList xs) = Inr (length xs)"
| "py_len (JDict d) = Inr (length d)"
| "py_len other = Inl TypeError"

subsection \<open>change_password\<close>

text \<open>
  The body of the route's \<open>try\<close> block; \<open>Inl\<close> is an exception, which the route answers
  with status 500. The update after a successful check filters on the serialized id, a
  string.
\<close>

definition change_password_body ::
  "auth_env \<Rightarrow> auth_state \<Rightarrow> string \<Rightarrow> request_json \<Rightarrow> py_error + (response \<times> auth_state)" where
  "change_password_body env st current_user_id req =
     (case req of
        GetJsonRaises \<Rightarrow> Inl OtherError
      | GetJson data \<Rightarrow>
     (case py_in ''current_password'' data of Inl e \<Rightarrow> Inl e | Inr has_current \<Rightarrow>
      if \<not> has_current
      then Inr (JsonResponse 400 ''Current password and new password required'', st) else
     (case py_in ''new_password'' data of Inl e \<Rightarrow> Inl e | Inr has_new \<Rightarrow>
      if \<not> has_new
      then Inr (JsonResponse 400 ''Current password and new password required'', st) else
     (case py_getitem data ''current_password'' of Inl e \<Rightarrow> Inl e | Inr current_password \<Rightarrow>
     (case py_getitem data ''new_password'' of Inl e \<Rightarrow> Inl e | Inr new_password \<Rightarrow>
     (case py_len new_password of Inl e \<Rightarrow> Inl e | Inr n \<Rightarrow>
      if n < 6
      then Inr (JsonResponse 400 ''New password must be at least 6 characters'', st) else
     (case get_user_by_id env (users st) current_user_id of
        None \<Rightarrow> Inr (JsonResponse 404 ''User not found'', st)
      | Some user \<Rightarrow>
     (case verify_password env user current_password of Inl e \<Rightarrow> Inl e | Inr ok \<Rightarrow>
      if \<not> ok then Inr (JsonResponse 401 ''Current password is incorrect'', st) else
     (case generate_password_hash env new_password of
        None \<Rightarrow> Inl TypeError
      | Some new_password_hash \<Rightarrow>
          Inr (JsonResponse 200 ''Password changed successfully'',
               st\<lparr>users :=
                    update_first (\<lambda>d. map_of d ''_id'' = map_of user ''_id'')
                      (AList.update ''password_hash'' (BJson (JStr new_password_hash)))
                      (users st)\<rparr>))))))))))"

definition change_password ::
  "auth_env \<Rightarrow> auth_state \<Rightarrow> string \<Rightarrow> request_json \<Rightarrow> response \<times> auth_state" where
  "change_password env st current_user_id req =
     (case change_password_body env st current_user_id req of
        Inl e \<Rightarrow> (JsonResponse 500 (''Password change failed: '' @ auth_error_text env e), st)
      | Inr result \<Rightarrow> result)"

subsection \<open>delete_account\<close>

text \<open>
  The profile photo of the serialized user, when the profile has one that is a string;
  \<open>Inl\<close> where the lookups raise.
\<close>

definition profile_photo :: "doc \<Rightarrow> py_error + string option" where
  "profile_photo user =
     (case map_of user ''profile'' of
        None \<Rightarrow> Inr None
      | Some (BDoc p) \<Rightarrow>
          (case map_of p ''profile_photo'' of
             Some (BJson (JStr s)) \<Rightarrow> Inr (if s = [] then None else Some s)
           | Some (BJson j) \<Rightarrow> (if truthy j then Inl AttributeError else Inr None)
           | Some other \<Rightarrow> Inl AttributeError
           | None \<Rightarrow> Inr None)
      | Some (BJson (JDict p)) \<Rightarrow>
          (case map_of p ''profile_photo'' of
             Some (JStr s) \<Rightarrow> Inr (if s = [] then None else Some s)
           | Some j \<Rightarrow> (if truthy j then Inl AttributeError else Inr None)
           | None \<Rightarrow> Inr None)
      | Some other \<Rightarrow> Inl AttributeError)"

definition delete_account_body ::
  "auth_env \<Rightarrow> auth_state \<Rightarrow> string \<Rightarrow> request_json \<Rightarrow> py_error + (response \<times> auth_state)" where
  "delete_account_body env st current_user_id req =
     (case req of
        GetJsonRaises \<Rightarrow> Inl OtherError
      | GetJson j \<Rightarrow>
     (let data = (if truthy j then j else JDict []) in
      case py_in ''password'' data of Inl e \<Rightarrow> Inl e | Inr has_password \<Rightarrow>
      if \<not> has_password then Inr (JsonResponse 400 ''Password confirmation required'', st) else
     (case py_getitem data ''password'' of Inl e \<Rightarrow> Inl e | Inr password \<Rightarrow>
     (case get_user_by_id env (users st) current_user_id of
        None \<Rightarrow> Inr (JsonResponse 404 ''User not found'', st)
      | Some user \<Rightarrow>
     (case verify_password env user password of Inl e \<Rightarrow> Inl e | Inr ok \<Rightarrow>
      if \<not> ok then Inr (JsonResponse 401 ''Incorrect password'', st) else
     (case profile_photo user of Inl e \<Rightarrow> Inl e | Inr photo \<Rightarrow>
      let files1 = (case photo of
                      None \<Rightarrow> stored_files st
                    | Some photo_path \<Rightarrow>
                        if take 9 photo_path = ''/uploads/''
                        then removeAll (drop 1 photo_path) (stored_files st)
                        else stored_files st);
          analyses1 = filter (\<lambda>a. a_user_id a \<noteq> current_user_id) (user_analyses st);
          (deleted_count, users1) =
             delete_one (\<lambda>d. map_of d ''_id'' = map_of user ''_id'') (users st);
          st1 = \<lparr>users = users1, user_analyses = analyses1, stored_files = files1\<rparr>
      in if deleted_count = 0 then Inr (JsonResponse 500 ''Failed to delete account'', st1)
         else Inr (JsonResponse 200 ''Account deleted successfully'', st1)))))))"

definition delete_account ::
  "auth_env \<Rightarrow> auth_state \<Rightarrow> string \<Rightarrow> request_json \<Rightarrow> response \<times> auth_state" where
  "delete_account env st current_user_id req =
     (case delete_account_body env st current_user_id req of
        Inl e \<Rightarrow> (JsonResponse 500 (''Account deletion failed: '' @ auth_error_text env e), st)
      | Inr result \<Rightarrow> result)"

subsection \<open>clear_user_data\<close>

text \<open>
  The route deletes the user's analyses and then resets the usage counter with \<open>$set\<close> on
  \<open>subscription.analyses_used\<close>, filtering on the id from the token, a string; where that
  update raises, the route answers 500 after the analyses are gone.
\<close>

definition reset_analyses_used :: "doc \<Rightarrow> doc option" where
  "reset_analyses_used d =
     (case map_of d ''subscription'' of
        None \<Rightarrow> Some (AList.update ''subscription'' (BDoc [(''analyses_used'', BJson (JInt 0))]) d)
      | Some (BDoc sub) \<Rightarrow>
          Some (AList.update ''subscription''
                  (BDoc (AList.update ''analyses_used'' (BJson (JInt 0)) sub)) d)
      | Some other \<Rightarrow> None)"

definition clear_user_data :: "auth_env \<Rightarrow> auth_state \<Rightarrow> string \<Rightarrow> response \<times> auth_state" where
  "clear_user_data env st current_user_id =
     (let st1 = st\<lparr>user_analyses :=
                      filter (\<lambda>a. a_user_id a \<noteq> current_user_id) (user_analyses st)\<rparr>
      in case get_user_by_id env (users st1) current_user_id of
           None \<Rightarrow> (JsonResponse 200 ''Successfully cleared'', st1)
         | Some user \<Rightarrow>
             if map_of user ''subscription'' = None
             then (JsonResponse 200 ''Successfully cleared'', st1)
             else (case find_one ''_id'' (BJson (JStr current_user_id)) (users st1) of
                     None \<Rightarrow> (JsonResponse 200 ''Successfully cleared'', st1)
                   | Some d \<Rightarrow>
                       (case reset_analyses_used d of
                          None \<Rightarrow> (JsonResponse 500 ''Failed to clear data'', st1)
                        | Some d' \<Rightarrow>
                            (JsonResponse 200 ''Successfully cleared'',
                             st1\<lparr>users :=
                                   update_first
                                     (\<lambda>x. map_of x ''_id'' = Some (BJson (JStr current_user_id)))
                                     (\<lambda>x. d') (users st1)\<rparr>))))"

subsection \<open>Notions of the specification\<close>

text \<open>
  The states that the account operations produce from an empty users collection. Each
  registration draws its own id, time and salt and each update its own time; that the
  database assigns ids not used before is not needed below and not required here.
\<close>

inductive reachable :: "auth_env \<Rightarrow> auth_state \<Rightarrow> bool" for env :: auth_env where
  start: "reachable env \<lparr>users = [], user_analyses = analyses0, stored_files = files0\<rparr>"
| register: "reachable env st \<Longrightarrow>
     reachable env (st\<lparr>users := snd (create_user env reg (users st) email password full_name)\<rparr>)"
| update: "reachable env st \<Longrightarrow> set (map fst update_data) \<subseteq> set allowed_fields \<Longrightarrow>
     reachable env (st\<lparr>users := snd (update_user env utcnow (users st) user_id update_data)\<rparr>)"
| increment: "reachable env st \<Longrightarrow>
     reachable env (st\<lparr>users := increment_analyses_count env (users st) user_id\<rparr>)"
| change: "reachable env st \<Longrightarrow> reachable env (snd (change_password env st user_id req))"
| delete: "reachable env st \<Longrightarrow> reachable env (snd (delete_account env st user_id req))"
| clear: "reachable env st \<Longrightarrow> reachable env (snd (clear_user_data env st user_id))"
| other: "reachable env st \<Longrightarrow>
     reachable env (st\<lparr>user_analyses := analyses', stored_files := files'\<rparr>)"

text \<open>No stored user document has a field \<open>password_hash\<close>.\<close>

definition no_password_hash :: "doc list \<Rightarrow> bool" where
  "no_password_hash docs = list_all (\<lambda>d. map_of d ''password_hash'' = None) docs"

definition status_code :: "response \<Rightarrow> nat" where
  "status_code r = (case r of JsonResponse code message \<Rightarrow> code | FileResponse path \<Rightarrow> 200)"

subsection \<open>A sample account\<close>

text \<open>Two accounts, registered one after the other with ids 1 and 2.\<close>

definition sample_auth_env :: auth_env where
  "sample_auth_env =
     \<lparr>object_id = (\<lambda>s. if s = ''1'' then Some 1 else if s = ''2'' then Some 2 else None),
      str_of_id = (\<lambda>n. if n = 1 then ''1'' else ''2''),
      bcrypt_hashpw = (\<lambda>p s. ''$2b$12$'' @ s @ p),
      hash_matches = (\<lambda>method s h password. Some (JStr h = password)),
      generate_password_hash = (\<lambda>p. case p of JStr s \<Rightarrow> Some (''plain$salt$'' @ s) | _ \<Rightarrow> None),
      auth_error_text = (\<lambda>e. ''error'')\<rparr>"

definition empty_state :: auth_state where
  "empty_state = \<lparr>users = [], user_analyses = [], stored_files = []\<rparr>"

definition ann_registered :: auth_state where
  "ann_registered =
     empty_state\<lparr>users :=
       snd (create_user sample_auth_env
              \<lparr>inserted_id_of = 1, registered_at = 10, gensalt = ''s1.''\<rparr>
              (users empty_state) ''Ann@Example.org'' ''secret1'' ''Ann'')\<rparr>"

definition registered :: auth_state where
  "registered =
     ann_registered\<lparr>users :=
       snd (create_user sample_auth_env
              \<lparr>inserted_id_of = 2, registered_at = 20, gensalt = ''s2.''\<rparr>
              (users ann_registered) ''bob@example.org'' ''hunter22'' ''Bob'')\<rparr>"

section \<open>Properties of the video analysis\<close>

subsection \<open>The posture test\<close>

lemma read_at_mediapipe:
  "mediapipe_capture cap \<Longrightarrow> read_at cap i = Some fr \<Longrightarrow> mediapipe_frame fr"
  unfolding mediapipe_capture_def read_at_def list_all_iff
  by (auto split: if_splits dest!: nth_mem) 

lemma pose_step_ok:
  assumes "mediapipe_frame fr"
  shows "\<exists>st'. pose_step fr st = Inr st' \<and> frame_count st' = frame_count st \<and>
           eye_contact_samples st' = eye_contact_samples st \<and>
           posture_samples st' = posture_samples st @ map shoulders_aligned (detected_poses [fr])"
  using assms
  by (auto simp: pose_step_def mediapipe_frame_def py_index_def detected_poses_def
      List.map_filter_simps shoulders_aligned_def LEFT_SHOULDER_def RIGHT_SHOULDER_def
      LEFT_HIP_def RIGHT_HIP_def Let_def split: option.splits)

lemma face_step_ok:
  assumes "mediapipe_frame fr"
  shows "\<exists>st'. face_step fr st = Inr st' \<and> frame_count st' = frame_count st \<and>
           posture_samples st' = posture_samples st"
  using assms
  by (auto simp: face_step_def mediapipe_frame_def py_index_def Let_def
      split: option.splits list.splits)

lemma process_frame_ok:
  assumes "mediapipe_frame fr"
  shows "\<exists>st'. process_frame fr st = Inr st' \<and> frame_count st' = frame_count st + 1 \<and>
           posture_samples st' = posture_samples st @ map shoulders_aligned (detected_poses [fr])"
proof -
  obtain st1 where 1: "pose_step fr (st\<lparr>frame_count := frame_count st + 1\<rparr>) = Inr st1"
    "frame_count st1 = frame_count st + 1"
    "posture_samples st1 = posture_samples st @ map shoulders_aligned (detected_poses [fr])"
    using pose_step_ok[OF assms, of "st\<lparr>frame_count := frame_count st + 1\<rparr>"] by auto
  obtain st2 where 2: "face_step fr st1 = Inr st2" "frame_count st2 = frame_count st1"
    "posture_samples st2 = posture_samples st1"
    using face_step_ok[OF assms, of st1] by auto
  show ?thesis using 1 2 by (simp add: process_frame_def)
qed

lemma detected_poses_Cons:
  "detected_poses (fr # frs) = detected_poses [fr] @ detected_poses frs"
  by (simp add: detected_poses_def List.map_filter_simps split: option.splits)

lemma video_loop_posture:
  assumes "mediapipe_capture cap"
  shows "\<exists>st'. video_loop cap target idxs st = Inr st' \<and>
           frame_count st' = frame_count st
             + int (length (frames_read cap target idxs (frame_count st))) \<and>
           posture_samples st' = posture_samples st @
             map shoulders_aligned (detected_poses (frames_read cap target idxs (frame_count st)))"
proof (induction idxs arbitrary: st)
  case Nil
  show ?case by (simp add: detected_poses_def List.map_filter_simps)
next
  case (Cons i rest)
  show ?case
  proof (cases "frame_count st \<ge> target")
    case True
    then show ?thesis by (simp add: detected_poses_def List.map_filter_simps)
  next
    case False
    show ?thesis
    proof (cases "read_at cap i")
      case None
      with False show ?thesis by (simp add: detected_poses_def List.map_filter_simps)
    next
      case (Some fr)
      then have wf: "mediapipe_frame fr" using assms read_at_mediapipe by blast
      obtain st1 where 1: "process_frame fr st = Inr st1" "frame_count st1 = frame_count st + 1"
        "posture_samples st1 = posture_samples st @ map shoulders_aligned (detected_poses [fr])"
        using process_frame_ok[OF wf, of st] by auto
      obtain st' where 2: "video_loop cap target rest st1 = Inr st'"
        "frame_count st' = frame_count st1
             + int (length (frames_read cap target rest (frame_count st1)))"
        "posture_samples st' = posture_samples st1 @
             map shoulders_aligned (detected_poses (frames_read cap target rest (frame_count st1)))"
        using Cons.IH[of st1] by auto
      show ?thesis using False Some 1 2
        by (simp add: detected_poses_Cons[of fr "frames_read cap target rest (frame_count st + 1)"])
    qed
  qed
qed

lemma quick_frame_ok:
  assumes "mediapipe_frame fr"
  shows "\<exists>st'. quick_frame fr st = Inr st' \<and> frames_checked st' = frames_checked st + 1 \<and>
           posture_count st' = posture_count st +
             int (length (filter shoulders_aligned (detected_poses [fr])))"
  using assms
  by (auto simp: quick_frame_def mediapipe_frame_def py_index_def detected_poses_def
      List.map_filter_simps shoulders_aligned_def LEFT_SHOULDER_def RIGHT_SHOULDER_def
      Let_def split: option.splits list.splits)

lemma quick_loop_posture:
  assumes "mediapipe_capture cap"
  shows "\<exists>st'. quick_loop cap target idxs st = Inr st' \<and>
           frames_checked st' = frames_checked st
             + int (length (frames_read cap target idxs (frames_checked st))) \<and>
           posture_count st' = posture_count st +
             int (length (filter shoulders_aligned
                    (detected_poses (frames_read cap target idxs (frames_checked st)))))"
proof (induction idxs arbitrary: st)
  case Nil
  show ?case by (simp add: detected_poses_def List.map_filter_simps)
next
  case (Cons i rest)
  show ?case
  proof (cases "frames_checked st \<ge> target")
    case True
    then show ?thesis by (simp add: detected_poses_def List.map_filter_simps)
  next
    case False
    show ?thesis
    proof (cases "read_at cap i")
      case None
      with False show ?thesis by (simp add: detected_poses_def List.map_filter_simps)
    next
      case (Some fr)
      then have wf: "mediapipe_frame fr" using assms read_at_mediapipe by blast
      obtain st1 where 1: "quick_frame fr st = Inr st1" "frames_checked st1 = frames_checked st + 1"
        "posture_count st1 = posture_count st +
             int (length (filter shoulders_aligned (detected_poses [fr])))"
        using quick_frame_ok[OF wf, of st] by auto
      obtain st' where 2: "quick_loop cap target rest st1 = Inr st'"
        "frames_checked st' = frames_checked st1
             + int (length (frames_read cap target rest (frames_checked st1)))"
        "posture_count st' = posture_count st1 +
             int (length (filter shoulders_aligned
                    (detected_poses (frames_read cap target rest (frames_checked st1)))))"
        using Cons.IH[of st1] by auto
      show ?thesis using False Some 1 2
        by (simp add: detected_poses_Cons[of fr "frames_read cap target rest (frames_checked st + 1)"])
    qed
  qed
qed

lemma analyze_video_ultrafast_posture:
  assumes "mediapipe_capture cap" and "isOpened cap" and "total_frames cap \<noteq> 0"
  shows "\<exists>res. analyze_video_ultrafast cap = Inr (Some res) \<and>
           posture_score res =
             calculate_smoothed_score
               (map shoulders_aligned (detected_poses (ultrafast_frames cap))) 65 5 \<and>
           frames_analyzed res = int (length (ultrafast_frames cap))"
proof -
  let ?target = "min 60 (total_frames cap)"
  let ?idxs = "py_range_step (total_frames cap) (max 1 (total_frames cap div ?target))"
  have t: "?target \<noteq> 0" using assms(3) by (simp add: min_def)
  obtain st' where l: "video_loop cap ?target ?idxs init_video_state = Inr st'"
    "frame_count st' = frame_count init_video_state
       + int (length (frames_read cap ?target ?idxs (frame_count init_video_state)))"
    "posture_samples st' = posture_samples init_video_state @
       map shoulders_aligned
         (detected_poses (frames_read cap ?target ?idxs (frame_count init_video_state)))"
    using video_loop_posture[OF assms(1), of ?target ?idxs init_video_state] by blast
  have i: "frame_count init_video_state = 0" "posture_samples init_video_state = []"
    by (simp_all add: init_video_state_def)
  show ?thesis
    using assms(2) t l unfolding i
    by (simp add: analyze_video_ultrafast_def ultrafast_frames_def Let_def)
qed

lemma one_click_analysis_posture:
  assumes "mediapipe_capture cap" and "total_frames cap \<noteq> 0"
  shows "(one_click_frames cap \<noteq> [] \<longrightarrow>
           (\<exists>res. one_click_analysis cap = Inr res \<and>
              q_posture_score res =
                real (length (filter shoulders_aligned (detected_poses (one_click_frames cap))))
                  / real (length (one_click_frames cap)) * 100)) \<and>
         (one_click_frames cap = [] \<longrightarrow> one_click_analysis cap = Inl ZeroDivisionError)"
proof -
  let ?target = "min 20 (total_frames cap)"
  let ?idxs = "py_range_step (total_frames cap) (max 1 (total_frames cap div ?target))"
  have t: "?target \<noteq> 0" using assms(2) by (simp add: min_def)
  obtain q' where l: "quick_loop cap ?target ?idxs init_quick_state = Inr q'"
    "frames_checked q' = frames_checked init_quick_state
       + int (length (frames_read cap ?target ?idxs (frames_checked init_quick_state)))"
    "posture_count q' = posture_count init_quick_state +
       int (length (filter shoulders_aligned
              (detected_poses (frames_read cap ?target ?idxs (frames_checked init_quick_state)))))"
    using quick_loop_posture[OF assms(1), of ?target ?idxs init_quick_state] by blast
  have i: "frames_checked init_quick_state = 0" "posture_count init_quick_state = 0"
    by (simp_all add: init_quick_state_def)
  show ?thesis
    using t l unfolding i
    by (simp add: one_click_analysis_def one_click_frames_def Let_def)
qed

text \<open>
  Claim C1. On the results of the detectors, \<open>analyze_video_ultrafast\<close> returns a posture
  score computed from one truth value per processed frame with a detected pose, in order,
  and that value says whether the absolute difference of the y-coordinates of the two
  shoulder landmarks is below 0.08; \<open>one_click_analysis\<close> reports the share of its
  processed frames that have a pose passing the same test. The same holds for the two
  sampling loops from any state and over any indices.
\<close>

theorem posture_good_iff_shoulder_delta_below_threshold:
  assumes "mediapipe_capture cap"
  shows "(isOpened cap \<and> total_frames cap \<noteq> 0 \<longrightarrow>
            (\<exists>res. analyze_video_ultrafast cap = Inr (Some res) \<and>
               posture_score res =
                 calculate_smoothed_score
                   (map shoulders_aligned (detected_poses (ultrafast_frames cap))) 65 5 \<and>
               frames_analyzed res = int (length (ultrafast_frames cap)))) \<and>
         (total_frames cap \<noteq> 0 \<and> one_click_frames cap \<noteq> [] \<longrightarrow>
            (\<exists>res. one_click_analysis cap = Inr res \<and>
               q_posture_score res =
                 real (length (filter shoulders_aligned (detected_poses (one_click_frames cap))))
                   / real (length (one_click_frames cap)) * 100)) \<and>
         (\<exists>st'. video_loop cap target idxs st = Inr st' \<and>
            posture_samples st' = posture_samples st @
              map shoulders_aligned
                (detected_poses (frames_read cap target idxs (frame_count st)))) \<and>
         (\<exists>q'. quick_loop cap sample_frames qidxs q = Inr q' \<and>
            posture_count q' = posture_count q +
              int (length (filter shoulders_aligned
                     (detected_poses (frames_read cap sample_frames qidxs (frames_checked q))))))"
  using analyze_video_ultrafast_posture[OF assms] one_click_analysis_posture[OF assms]
    video_loop_posture[OF assms, of target idxs st]
    quick_loop_posture[OF assms, of sample_frames qidxs q]
  by blast

lemma demo_frames_read:
  "frames_read demo_capture 3 [0, 1, 2] 0 = map the (frames demo_capture)"
  by (simp add: demo_capture_def read_at_def)

lemma demo_sampled:
  "ultrafast_frames demo_capture = map the (frames demo_capture)"
  "one_click_frames demo_capture = map the (frames demo_capture)"
  by (simp_all add: ultrafast_frames_def one_click_frames_def demo_capture_def read_at_def
      py_range_step_def upt_rec)

lemma demo_aligned: "map shoulders_aligned (detected_poses (map the (frames demo_capture))) = [True, False]"
  by (simp add: demo_capture_def detected_poses_def List.map_filter_simps shoulders_aligned_def
      LEFT_SHOULDER_def RIGHT_SHOULDER_def shoulders_at_def)

lemma demo_analyze: "analyze_video_ultrafast demo_capture = Inr (Some demo_results)"
  by (simp add: analyze_video_ultrafast_def demo_capture_def py_range_step_def read_at_def
      init_video_state_def process_frame_def pose_step_def face_step_def py_index_def
      LEFT_SHOULDER_def RIGHT_SHOULDER_def LEFT_HIP_def RIGHT_HIP_def shoulders_at_def Let_def
      calculate_smoothed_score_def py_sum_bools_def demo_results_def upt_rec)

lemma demo_one_click: "one_click_analysis demo_capture = Inr demo_quick_results"
  by (simp add: one_click_analysis_def demo_capture_def py_range_step_def read_at_def
      init_quick_state_def quick_frame_def py_index_def shoulders_at_def Let_def
      demo_quick_results_def upt_rec)

theorem posture_good_iff_shoulder_delta_below_threshold_witness:
  "mediapipe_capture demo_capture \<and> isOpened demo_capture \<and> total_frames demo_capture \<noteq> 0 \<and>
   one_click_frames demo_capture \<noteq> [] \<and>
   analyze_video_ultrafast demo_capture = Inr (Some demo_results) \<and>
   posture_score demo_results = calculate_smoothed_score [True, False] 65 5 \<and>
   one_click_analysis demo_capture = Inr demo_quick_results \<and>
   q_posture_score demo_quick_results = 1 / 3 * 100 \<and>
   (\<exists>st'. video_loop demo_capture 3 [0, 1, 2] init_video_state = Inr st' \<and>
      posture_samples st' = [True, False]) \<and>
   (\<exists>q'. quick_loop demo_capture 3 [0, 1, 2] init_quick_state = Inr q' \<and> posture_count q' = 1)"
proof -
  have h: "mediapipe_capture demo_capture"
    by (simp add: mediapipe_capture_def mediapipe_frame_def demo_capture_def shoulders_at_def)
  have o: "isOpened demo_capture" "total_frames demo_capture \<noteq> 0"
    "length (frames demo_capture) = 3" "frames demo_capture \<noteq> []"
    by (simp_all add: demo_capture_def)
  have a: "filter shoulders_aligned (detected_poses (map the (frames demo_capture))) = [shoulders_at 0.50 0.45]"
    by (simp add: demo_capture_def detected_poses_def List.map_filter_simps shoulders_aligned_def
      LEFT_SHOULDER_def RIGHT_SHOULDER_def shoulders_at_def)
  show ?thesis
    using h o posture_good_iff_shoulder_delta_below_threshold
      [OF h, of 3 "[0, 1, 2]" init_video_state 3 "[0, 1, 2]" init_quick_state]
      demo_analyze demo_one_click
    by (simp add: init_video_state_def init_quick_state_def demo_frames_read demo_aligned a
        demo_sampled demo_results_def demo_quick_results_def calculate_smoothed_score_def
        py_sum_bools_def
        del: video_loop.simps quick_loop.simps frames_read.simps)
qed

subsection \<open>Score smoothing\<close>

lemma foldl_sum_bools:
  "foldl (\<lambda>acc b. acc + (if b then 1 else 0)) a samples = a + int (length (filter (\<lambda>b. b) samples))"
  by (induction samples arbitrary: a) auto

lemma py_sum_bools_count: "py_sum_bools samples = int (length (filter (\<lambda>b. b) samples))"
  by (simp add: py_sum_bools_def foldl_sum_bools)

lemma calculate_smoothed_score_mean:
  "samples \<noteq> [] \<Longrightarrow>
     calculate_smoothed_score samples baseline variation = clamp_30_95 (sample_mean samples * 100)"
  by (simp add: calculate_smoothed_score_def py_sum_bools_count sample_mean_def clamp_30_95_def
      Let_def min_def max_def)

lemma calculate_smoothed_score_range:
  "30 \<le> baseline \<Longrightarrow> baseline \<le> 95 \<Longrightarrow>
     30 \<le> calculate_smoothed_score samples baseline variation \<and>
     calculate_smoothed_score samples baseline variation \<le> 95"
  by (simp add: calculate_smoothed_score_def Let_def)

text \<open>
  Claim C9. \<open>calculate_smoothed_score\<close> returns the baseline on the empty list and
  otherwise the sample mean times 100 clamped to the interval from 30 to 95; the variation
  argument has no influence. Every score that \<open>analyze_video_ultrafast\<close> reports lies
  between 30 and 95 (the baselines 65 and 60 used without samples lie there too).
\<close>

theorem calculate_smoothed_score_clamped:
  "calculate_smoothed_score [] baseline variation = baseline \<and>
   (samples \<noteq> [] \<longrightarrow>
      calculate_smoothed_score samples baseline variation = clamp_30_95 (sample_mean samples * 100) \<and>
      30 \<le> calculate_smoothed_score samples baseline variation \<and>
      calculate_smoothed_score samples baseline variation \<le> 95) \<and>
   calculate_smoothed_score samples baseline variation =
     calculate_smoothed_score samples baseline variation' \<and>
   (analyze_video_ultrafast cap = Inr (Some res) \<longrightarrow>
      30 \<le> posture_score res \<and> posture_score res \<le> 95 \<and>
      30 \<le> eye_contact_score res \<and> eye_contact_score res \<le> 95 \<and>
      30 \<le> confidence_score res \<and> confidence_score res \<le> 95)"
proof (intro conjI impI)
  show "calculate_smoothed_score [] baseline variation = baseline"
    by (simp add: calculate_smoothed_score_def)
  show "calculate_smoothed_score samples baseline variation =
     calculate_smoothed_score samples baseline variation'"
    by (simp add: calculate_smoothed_score_def)
next
  assume ne: "samples \<noteq> []"
  then show "calculate_smoothed_score samples baseline variation = clamp_30_95 (sample_mean samples * 100)"
    by (rule calculate_smoothed_score_mean)
  from ne show "30 \<le> calculate_smoothed_score samples baseline variation"
    by (simp add: calculate_smoothed_score_def Let_def)
  from ne show "calculate_smoothed_score samples baseline variation \<le> 95"
    by (simp add: calculate_smoothed_score_def Let_def)
next
  assume r: "analyze_video_ultrafast cap = Inr (Some res)"
  then have "\<exists>st::video_state. posture_score res = calculate_smoothed_score (posture_samples st) 65 5 \<and>
      eye_contact_score res = calculate_smoothed_score (eye_contact_samples st) 60 5 \<and>
      confidence_score res = calculate_smoothed_score (confidence_samples st) 65 5"
    by (auto simp: analyze_video_ultrafast_def Let_def split: if_splits sum.splits)
  then obtain st :: video_state where res:
      "posture_score res = calculate_smoothed_score (posture_samples st) 65 5"
      "eye_contact_score res = calculate_smoothed_score (eye_contact_samples st) 60 5"
      "confidence_score res = calculate_smoothed_score (confidence_samples st) 65 5"
    by blast
  show "30 \<le> posture_score res" "posture_score res \<le> 95"
    "30 \<le> eye_contact_score res" "eye_contact_score res \<le> 95"
    "30 \<le> confidence_score res" "confidence_score res \<le> 95"
    using calculate_smoothed_score_range[of 65 "posture_samples st" 5]
      calculate_smoothed_score_range[of 60 "eye_contact_samples st" 5]
      calculate_smoothed_score_range[of 65 "confidence_samples st" 5]
    by (simp_all add: res)
qed

theorem calculate_smoothed_score_clamped_witness:
  "[True, False, False] \<noteq> [] \<and>
   calculate_smoothed_score [True, False, False] 65 5 = 100 / 3 \<and>
   calculate_smoothed_score [True, False, False] 65 7 = 100 / 3 \<and>
   analyze_video_ultrafast demo_capture = Inr (Some demo_results) \<and>
   30 \<le> posture_score demo_results \<and> confidence_score demo_results \<le> 95"
  using calculate_smoothed_score_clamped
    [of 65 5 "[True, False, False]" 7 demo_capture demo_results] demo_analyze
  by (simp add: sample_mean_def clamp_30_95_def)

section \<open>Properties of the audio analysis\<close>

subsection \<open>Words per minute\<close>

lemma loaded_duration:
  "real (length (take (60 * sr) samples)) / real sr = min 60 (real (length samples) / 8000)"
  by (simp add: sr_def min_def)

lemma transcribed_signal:
  "(if 30 < min 60 (real (length samples) / 8000)
    then take (30 * sr) (take (60 * sr) samples) else take (60 * sr) samples)
   = take (30 * sr) samples"
  by (auto simp: sr_def min_def)

lemma analyze_audio_closed:
  assumes "decoded env = Some samples"
  shows "analyze_audio_ultrafast env =
     (if real (length samples) / 8000 < 3 then None
      else case whisper_pipe env (take (30 * sr) samples) of
             None \<Rightarrow> None
           | Some raw \<Rightarrow>
               if py_strip raw = [] then None
               else audio_report env (take (30 * sr) samples)
                      (min 60 (real (length samples) / 8000))
                      (min 30 (real (length samples) / 8000)) (py_strip raw))"
proof -
  have m: "min 30 (min 60 (real (length samples) / 8000)) = min 30 (real (length samples) / 8000)"
    by simp
  have lt: "(min 60 (real (length samples) / 8000) < 3) = (real (length samples) / 8000 < 3)"
    by (simp add: min_def)
  show ?thesis
    unfolding analyze_audio_ultrafast_def Let_def
    by (simp only: assms option.case loaded_duration transcribed_signal m lt)
qed

lemma audio_report_wpm:
  "audio_report env y dur md text = Some res \<Longrightarrow>
     wpm res = real (length (py_split text)) / md * 60 \<and>
     filler_count res = sum_list (map (py_count (py_lower text)) filler_words)"
  by (auto simp: audio_report_def Let_def split: option.splits)

lemma audio_report_returns:
  "pyin env y = Some f0 \<Longrightarrow> \<exists>res. audio_report env y dur md text = Some res"
  by (simp add: audio_report_def Let_def)

text \<open>
  Claim C2. Whenever the audio analysis reports a result, the decoded audio lasts at least
  3 seconds, the transcript is not empty, and the reported words-per-minute value is the
  number of whitespace-separated words of the transcript divided by the smaller of 30 and
  the duration in seconds, times 60. The transcript is Whisper's text on the first 30
  seconds only. Conversely such audio yields a result whenever the pitch estimation returns.
\<close>

theorem wpm_is_words_per_capped_minute:
  "(analyze_audio_ultrafast env = Some res \<longrightarrow>
      (\<exists>text. transcript env = Some text \<and> text \<noteq> [] \<and> 3 \<le> audio_seconds env \<and>
         wpm res = real (length (py_split text)) / min 30 (audio_seconds env) * 60)) \<and>
   (decoded env = Some samples \<and> transcript env = Some text \<and> text \<noteq> [] \<and>
    3 \<le> audio_seconds env \<and> pyin env (take (30 * sr) samples) = Some f0 \<longrightarrow>
      (\<exists>r. analyze_audio_ultrafast env = Some r \<and>
         wpm r = real (length (py_split text)) / min 30 (audio_seconds env) * 60))"
proof (intro conjI impI)
  assume r: "analyze_audio_ultrafast env = Some res"
  then obtain samples where d: "decoded env = Some samples"
    by (auto simp: analyze_audio_ultrafast_def split: option.splits)
  from r obtain raw where w: "whisper_pipe env (take (30 * sr) samples) = Some raw"
    and ne: "py_strip raw \<noteq> []" and long: "\<not> real (length samples) / 8000 < 3"
    and rep: "audio_report env (take (30 * sr) samples)
                      (min 60 (real (length samples) / 8000))
                      (min 30 (real (length samples) / 8000)) (py_strip raw) = Some res"
    unfolding analyze_audio_closed[OF d] by (auto split: if_splits option.splits)
  have "transcript env = Some (py_strip raw)" by (simp add: transcript_def d w)
  moreover have "3 \<le> audio_seconds env" using long by (simp add: audio_seconds_def d)
  moreover have "wpm res = real (length (py_split (py_strip raw))) / min 30 (audio_seconds env) * 60"
    using audio_report_wpm[OF rep] by (simp add: audio_seconds_def d)
  ultimately show "\<exists>text. transcript env = Some text \<and> text \<noteq> [] \<and> 3 \<le> audio_seconds env \<and>
         wpm res = real (length (py_split text)) / min 30 (audio_seconds env) * 60"
    using ne by blast
next
  assume h: "decoded env = Some samples \<and> transcript env = Some text \<and> text \<noteq> [] \<and>
    3 \<le> audio_seconds env \<and> pyin env (take (30 * sr) samples) = Some f0"
  then have d: "decoded env = Some samples" by simp
  from h obtain raw where w: "whisper_pipe env (take (30 * sr) samples) = Some raw"
    and t: "text = py_strip raw"
    by (auto simp: transcript_def)
  from h have long: "\<not> real (length samples) / 8000 < 3" by (simp add: audio_seconds_def d)
  from h have p: "pyin env (take (30 * sr) samples) = Some f0" by simp
  obtain r where rep: "audio_report env (take (30 * sr) samples)
                      (min 60 (real (length samples) / 8000))
                      (min 30 (real (length samples) / 8000)) text = Some r"
    using audio_report_returns[OF p] by blast
  have "analyze_audio_ultrafast env = Some r"
    unfolding analyze_audio_closed[OF d] using w t h long rep by simp
  moreover have "wpm r = real (length (py_split text)) / min 30 (audio_seconds env) * 60"
    using audio_report_wpm[OF rep] by (simp add: audio_seconds_def d)
  ultimately show "\<exists>r. analyze_audio_ultrafast env = Some r \<and>
         wpm r = real (length (py_split text)) / min 30 (audio_seconds env) * 60"
    by blast
qed

lemma long_audio_analysis: "analyze_audio_ultrafast long_audio = Some long_audio_results"
  by (simp add: analyze_audio_ultrafast_def long_audio_def long_audio_results_def sr_def
      audio_report_def py_strip_def py_isspace_def py_split_def py_lower_def py_lower_char_def
      py_isupper_def filler_words_def Let_def)

theorem wpm_is_words_per_capped_minute_witness:
  "analyze_audio_ultrafast long_audio = Some long_audio_results \<and>
   decoded long_audio = Some (replicate 320000 0) \<and>
   transcript long_audio = Some ''one two three'' \<and>
   3 \<le> audio_seconds long_audio \<and>
   pyin long_audio (take (30 * sr) (replicate 320000 0)) = Some [] \<and>
   wpm long_audio_results = 3 / 30 * 60"
proof -
  have t: "transcript long_audio = Some ''one two three''"
    by (simp add: transcript_def long_audio_def sr_def py_strip_def py_isspace_def)
  have s: "3 \<le> audio_seconds long_audio" "audio_seconds long_audio = 40"
    by (simp_all add: audio_seconds_def long_audio_def)
  have d: "decoded long_audio = Some (replicate 320000 0)"
    and p: "pyin long_audio (take (30 * sr) (replicate 320000 0)) = Some []"
    by (simp_all add: long_audio_def)
  have w: "length (py_split ''one two three'') = 3"
    by (simp add: py_split_def py_isspace_def)
  show ?thesis
    using wpm_is_words_per_capped_minute
      [of long_audio long_audio_results "replicate 320000 0" "''one two three''" "[]"]
      long_audio_analysis t s d p w
    by (simp add: long_audio_results_def)
qed

subsection \<open>Filler words\<close>

lemma occurs_at_bound: "sub \<noteq> [] \<Longrightarrow> occurs_at s sub i \<Longrightarrow> i + length sub \<le> length s"
proof -
  assume ne: "sub \<noteq> []" and o: "occurs_at s sub i"
  have "length (take (length sub) (drop i s)) = length sub" using o by (simp add: occurs_at_def)
  moreover have "0 < length sub" using ne by simp
  ultimately show ?thesis by (simp only: length_take length_drop)
qed

lemma occurs_at_drop: "occurs_at (drop k s) sub i = occurs_at s sub (k + i)"
  by (simp add: occurs_at_def add.commute)

lemma occurrences_card:
  assumes "sub \<noteq> []"
  shows "occurrences s sub = card {i. occurs_at s sub i}"
proof -
  have "occurrences s sub = card {i. i < length s \<and> occurs_at s sub i}"
  proof -
    have "{i. i < length s \<and> take (length sub) (drop ([0..<length s] ! i) s) = sub}
          = {i. i < length s \<and> take (length sub) (drop i s) = sub}"
      by auto
    then show ?thesis
      unfolding occurrences_def occurs_at_def by (simp add: length_filter_conv_card)
  qed
  moreover have "{i. i < length s \<and> occurs_at s sub i} = {i. occurs_at s sub i}"
  proof -
    have "i < length s" if "occurs_at s sub i" for i
    proof -
      have "i + length sub \<le> length s" using occurs_at_bound[OF assms that] .
      moreover have "0 < length sub" using assms by simp
      ultimately show ?thesis by arith
    qed
    then show ?thesis by blast
  qed
  ultimately show ?thesis by simp
qed

lemma finite_occurs: "sub \<noteq> [] \<Longrightarrow> finite {i. occurs_at s sub i}"
proof -
  assume ne: "sub \<noteq> []"
  have "{i. occurs_at s sub i} \<subseteq> {..< length s}"
  proof
    fix i assume "i \<in> {i. occurs_at s sub i}"
    then have "i + length sub \<le> length s" using occurs_at_bound[OF ne] by simp
    moreover have "0 < length sub" using ne by simp
    ultimately have "i < length s" by arith
    then show "i \<in> {..< length s}" by simp
  qed
  then show ?thesis by (rule finite_subset) simp
qed

lemma card_occurs_drop_le:
  assumes "sub \<noteq> []"
  shows "card {i. occurs_at (drop k s) sub i} \<le> card {i. occurs_at s sub i}"
proof -
  have "(\<lambda>i. k + i) ` {i. occurs_at (drop k s) sub i} \<subseteq> {i. occurs_at s sub i}"
    by (auto simp: occurs_at_drop)
  then have "card ((\<lambda>i. k + i) ` {i. occurs_at (drop k s) sub i}) \<le> card {i. occurs_at s sub i}"
    by (rule card_mono[OF finite_occurs[OF assms]])
  then show ?thesis by (simp add: card_image)
qed

lemma card_occurs_head:
  assumes "sub \<noteq> []" and "occurs_at s sub 0"
  shows "card {i. occurs_at s sub i} = Suc (card {i. 0 < i \<and> occurs_at s sub i})"
proof -
  have "{i. occurs_at s sub i} = insert 0 {i. 0 < i \<and> occurs_at s sub i}"
    using assms(2) by (auto intro: gr0I)
  moreover have "finite {i. 0 < i \<and> occurs_at s sub i}"
    using finite_occurs[OF assms(1), of s] by simp
  ultimately show ?thesis by simp
qed

lemma py_count_le_occurrences:
  "sub \<noteq> [] \<Longrightarrow> py_count s sub \<le> card {i. occurs_at s sub i}"
proof (induction s sub rule: py_count.induct)
  case (1 sub)
  then show ?case by simp
next
  case (2 c cs sub)
  let ?n = "length sub"
  show ?case
  proof (cases "take ?n (c # cs) = sub")
    case True
    then have o: "occurs_at (c # cs) sub 0" by (simp add: occurs_at_def)
    have "(\<lambda>i. ?n + i) ` {i. occurs_at (drop ?n (c # cs)) sub i} \<subseteq> {i. 0 < i \<and> occurs_at (c # cs) sub i}"
      using 2(4) by (auto simp: occurs_at_drop)
    then have "card ((\<lambda>i. ?n + i) ` {i. occurs_at (drop ?n (c # cs)) sub i})
                 \<le> card {i. 0 < i \<and> occurs_at (c # cs) sub i}"
      using finite_occurs[OF 2(4), of "c # cs"] by (intro card_mono) simp_all
    then have "card {i. occurs_at (drop ?n (c # cs)) sub i} \<le> card {i. 0 < i \<and> occurs_at (c # cs) sub i}"
      by (simp add: card_image)
    moreover have "py_count (drop ?n (c # cs)) sub \<le> card {i. occurs_at (drop ?n (c # cs)) sub i}"
      using 2(2)[OF 2(4) True 2(4)] .
    ultimately show ?thesis using True 2(4) card_occurs_head[OF 2(4) o] by simp
  next
    case False
    have "py_count cs sub \<le> card {i. occurs_at cs sub i}" using 2(3)[OF 2(4) False 2(4)] .
    also have "\<dots> = card {i. occurs_at (drop 1 (c # cs)) sub i}" by simp
    also have "\<dots> \<le> card {i. occurs_at (c # cs) sub i}" by (rule card_occurs_drop_le[OF 2(4)])
    finally show ?thesis using False 2(4) by simp
  qed
qed

lemma overlap_freeD:
  assumes "overlap_free s sub" and "sub \<noteq> []" and "occurs_at s sub i" and "occurs_at s sub j" and "i < j"
  shows "i + length sub \<le> j"
proof (rule ccontr)
  assume "\<not> i + length sub \<le> j"
  then have j: "j \<in> set [Suc i ..< i + length sub]" using assms(5) by simp
  have i: "i \<in> set [0 ..< length s]" using occurs_at_bound[OF assms(2,3)] assms(2) by (cases sub) auto
  from assms(1) i j have "\<not> (occurs_at s sub i \<and> occurs_at s sub j)"
    unfolding overlap_free_def list_all_iff by blast
  with assms(3,4) show False by simp
qed

lemma overlap_freeI:
  assumes "\<And>i j. occurs_at s sub i \<Longrightarrow> occurs_at s sub j \<Longrightarrow> i < j \<Longrightarrow> i + length sub \<le> j"
  shows "overlap_free s sub"
  unfolding overlap_free_def list_all_iff using assms by fastforce

lemma overlap_free_drop:
  assumes "overlap_free s sub" and "sub \<noteq> []"
  shows "overlap_free (drop k s) sub"
proof (rule overlap_freeI)
  fix i j assume "occurs_at (drop k s) sub i" "occurs_at (drop k s) sub j" "i < j"
  then have "k + i + length sub \<le> k + j"
    using overlap_freeD[OF assms, of "k + i" "k + j"] by (simp add: occurs_at_drop)
  then show "i + length sub \<le> j" by simp
qed

lemma py_count_eq_occurrences:
  "sub \<noteq> [] \<Longrightarrow> overlap_free s sub \<Longrightarrow> py_count s sub = card {i. occurs_at s sub i}"
proof (induction s sub rule: py_count.induct)
  case (1 sub)
  then have "{i. occurs_at [] sub i} = {}" by (auto simp: occurs_at_def)
  with 1 show ?case by simp
next
  case (2 c cs sub)
  let ?n = "length sub"
  note ne = 2(4) and free = 2(5)
  show ?case
  proof (cases "take ?n (c # cs) = sub")
    case True
    then have o: "occurs_at (c # cs) sub 0" by (simp add: occurs_at_def)
    have "{i. 0 < i \<and> occurs_at (c # cs) sub i} = (\<lambda>i. ?n + i) ` {i. occurs_at (drop ?n (c # cs)) sub i}"
    proof (intro set_eqI iffI)
      fix i assume "i \<in> {i. 0 < i \<and> occurs_at (c # cs) sub i}"
      then have i: "0 < i" "occurs_at (c # cs) sub i" by simp_all
      then have "?n \<le> i" using overlap_freeD[OF free ne o i(2) i(1)] by simp
      then have "i = ?n + (i - ?n)" by simp
      moreover have "occurs_at (drop ?n (c # cs)) sub (i - ?n)"
        using i(2) \<open>?n \<le> i\<close> by (simp only: occurs_at_drop) simp
      ultimately show "i \<in> (\<lambda>i. ?n + i) ` {i. occurs_at (drop ?n (c # cs)) sub i}" by blast
    next
      fix i assume "i \<in> (\<lambda>i. ?n + i) ` {i. occurs_at (drop ?n (c # cs)) sub i}"
      then show "i \<in> {i. 0 < i \<and> occurs_at (c # cs) sub i}"
        using ne by (auto simp: occurs_at_drop)
    qed
    then have "card {i. 0 < i \<and> occurs_at (c # cs) sub i} = card {i. occurs_at (drop ?n (c # cs)) sub i}"
      by (simp add: card_image)
    moreover have "py_count (drop ?n (c # cs)) sub = card {i. occurs_at (drop ?n (c # cs)) sub i}"
      using 2(2)[OF ne True ne overlap_free_drop[OF free ne]] .
    ultimately show ?thesis using True ne card_occurs_head[OF ne o] by simp
  next
    case False
    then have no: "\<not> occurs_at (c # cs) sub 0" by (simp add: occurs_at_def)
    have "{i. occurs_at (c # cs) sub i} = Suc ` {i. occurs_at cs sub i}"
    proof (intro set_eqI iffI)
      fix i assume "i \<in> {i. occurs_at (c # cs) sub i}"
      then have i: "occurs_at (c # cs) sub i" by simp
      with no have "i \<noteq> 0" by (cases "i = 0") simp_all
      then obtain k where "i = Suc k" by (cases i) auto
      with i show "i \<in> Suc ` {i. occurs_at cs sub i}" by (auto simp: occurs_at_def)
    next
      fix i assume "i \<in> Suc ` {i. occurs_at cs sub i}"
      then show "i \<in> {i. occurs_at (c # cs) sub i}" by (auto simp: occurs_at_def)
    qed
    then have "card {i. occurs_at (c # cs) sub i} = card {i. occurs_at cs sub i}"
      by (simp add: card_image)
    moreover have "overlap_free cs sub" using overlap_free_drop[OF free ne, of 1] by simp
    ultimately show ?thesis using False ne 2(3)[OF ne False ne] by simp
  qed
qed

lemma filler_words_nonempty: "f \<in> set filler_words \<Longrightarrow> f \<noteq> []"
  by (auto simp: filler_words_def)

lemma filler_words_delimited:
  "f \<in> set filler_words \<Longrightarrow> f ! 0 = CHR '' '' \<and> f ! (length f - 1) = CHR '' ''"
  by (auto simp: filler_words_def)

lemma occurs_at_nth:
  assumes "occurs_at s sub i" and "k < length sub"
  shows "s ! (i + k) = sub ! k"
proof -
  have "sub ! k = take (length sub) (drop i s) ! k" using assms(1) by (simp add: occurs_at_def)
  also have "\<dots> = drop i s ! k" using assms(2) by simp
  also have "\<dots> = s ! (i + k)"
  proof -
    have "length (take (length sub) (drop i s)) = length sub"
      using assms(1) by (simp add: occurs_at_def)
    then have "i + k < length s" using assms(2) by (simp only: length_take length_drop)
    then show ?thesis by simp
  qed
  finally show ?thesis by simp
qed

lemma filler_occurrence_delimited:
  assumes "f \<in> set filler_words" and "occurs_at s f i"
  shows "s ! i = CHR '' '' \<and> s ! (i + length f - 1) = CHR '' ''"
proof -
  have pos: "0 < length f" using filler_words_nonempty[OF assms(1)] by simp
  have "s ! (i + 0) = f ! 0" using occurs_at_nth[OF assms(2) pos] .
  moreover have "length f - 1 < length f" using pos by arith
  then have "s ! (i + (length f - 1)) = f ! (length f - 1)"
    by (rule occurs_at_nth[OF assms(2)])
  moreover have "i + (length f - 1) = i + length f - 1" using pos by arith
  ultimately show ?thesis using filler_words_delimited[OF assms(1)] by (simp del: One_nat_def)
qed

lemma filler_sum_le:
  "sum_list (map (py_count s) filler_words) \<le> sum_list (map (occurrences s) filler_words)"
  by (rule sum_list_mono)
     (simp add: occurrences_card[OF filler_words_nonempty] py_count_le_occurrences[OF filler_words_nonempty])

lemma filler_sum_eq:
  assumes "list_all (overlap_free s) filler_words"
  shows "sum_list (map (py_count s) filler_words) = sum_list (map (occurrences s) filler_words)"
proof -
  have "map (py_count s) filler_words = map (occurrences s) filler_words"
  proof (rule map_cong[OF refl])
    fix f assume f: "f \<in> set filler_words"
    then have "overlap_free s f" using assms by (simp add: list_all_iff)
    then show "py_count s f = occurrences s f"
      using py_count_eq_occurrences[OF filler_words_nonempty[OF f]]
        occurrences_card[OF filler_words_nonempty[OF f]] by simp
  qed
  then show ?thesis by (rule arg_cong)
qed

lemma card_occurs_no_head:
  assumes "\<not> occurs_at (c # cs) sub 0"
  shows "card {i. occurs_at (c # cs) sub i} = card {i. occurs_at cs sub i}"
proof -
  have "{i. occurs_at (c # cs) sub i} = Suc ` {i. occurs_at cs sub i}"
  proof (intro set_eqI iffI)
    fix i assume "i \<in> {i. occurs_at (c # cs) sub i}"
    then have i: "occurs_at (c # cs) sub i" by simp
    with assms have "i \<noteq> 0" by (cases "i = 0") simp_all
    then obtain k where "i = Suc k" by (cases i) auto
    with i show "i \<in> Suc ` {i. occurs_at cs sub i}" by (auto simp: occurs_at_def)
  next
    fix i assume "i \<in> Suc ` {i. occurs_at cs sub i}"
    then show "i \<in> {i. occurs_at (c # cs) sub i}" by (auto simp: occurs_at_def)
  qed
  then show ?thesis by (simp add: card_image)
qed

lemma py_count_lt_occurrences:
  "sub \<noteq> [] \<Longrightarrow> occurs_at s sub i \<Longrightarrow> occurs_at s sub j \<Longrightarrow> i < j \<Longrightarrow>
     j < i + length sub \<Longrightarrow> py_count s sub < card {k. occurs_at s sub k}"
proof (induction s sub arbitrary: i j rule: py_count.induct)
  case (1 sub)
  then show ?case by (auto simp: occurs_at_def)
next
  case (2 c cs sub)
  let ?n = "length sub"
  let ?s = "c # cs"
  note ne = "2.prems"(1) and oi = "2.prems"(2) and oj = "2.prems"(3) and ij = "2.prems"(4)
    and close = "2.prems"(5)
  have pos: "0 < ?n" using ne by simp
  show ?case
  proof (cases "take ?n ?s = sub")
    case True
    then have o: "occurs_at ?s sub 0" by (simp add: occurs_at_def)
    let ?A = "{k. occurs_at (drop ?n ?s) sub k}"
    let ?B = "{k. 0 < k \<and> occurs_at ?s sub k}"
    have finB: "finite ?B" using finite_occurs[OF ne, of ?s] by simp
    have img: "(\<lambda>k. ?n + k) ` ?A \<subseteq> ?B" using pos by (auto simp: occurs_at_drop)
    have cardA: "card ((\<lambda>k. ?n + k) ` ?A) = card ?A" by (simp add: card_image)
    have "py_count (drop ?n ?s) sub < card ?B"
    proof (cases "?n \<le> i")
      case True
      have "occurs_at (drop ?n ?s) sub (i - ?n)" "occurs_at (drop ?n ?s) sub (j - ?n)"
        using oi oj True ij by (simp_all only: occurs_at_drop) simp_all
      moreover have "i - ?n < j - ?n" "j - ?n < i - ?n + ?n" using True ij close by arith+
      ultimately have "py_count (drop ?n ?s) sub < card ?A"
        using "2.IH"(2)[OF ne \<open>take ?n ?s = sub\<close> ne] by blast
      also have "card ?A \<le> card ?B" using card_mono[OF finB img] cardA by simp
      finally show ?thesis .
    next
      case False
      define w where "w = (if i = 0 then j else i)"
      have w: "0 < w" "w < ?n" "occurs_at ?s sub w"
        using False ij close oi oj by (auto simp: w_def)
      have "w \<in> ?B" using w by simp
      moreover have "w \<notin> (\<lambda>k. ?n + k) ` ?A" using w(2) by auto
      ultimately have "(\<lambda>k. ?n + k) ` ?A \<subset> ?B" using img by blast
      then have "card ?A < card ?B" using psubset_card_mono[OF finB] cardA by metis
      moreover have "py_count (drop ?n ?s) sub \<le> card ?A"
        by (rule py_count_le_occurrences[OF ne])
      ultimately show ?thesis by simp
    qed
    then show ?thesis using True ne card_occurs_head[OF ne o] by simp
  next
    case False
    then have no: "\<not> occurs_at ?s sub 0" by (simp add: occurs_at_def)
    with oi have i0: "i \<noteq> 0" by (cases "i = 0") simp_all
    then have "occurs_at cs sub (i - 1)" "occurs_at cs sub (j - 1)"
      using oi oj ij occurs_at_drop[of 1 ?s sub "i - 1"] occurs_at_drop[of 1 ?s sub "j - 1"]
      by simp_all
    moreover have "i - 1 < j - 1" "j - 1 < i - 1 + ?n" using i0 ij close by arith+
    ultimately have "py_count cs sub < card {k. occurs_at cs sub k}"
      using "2.IH"(3)[OF ne False ne] by blast
    then show ?thesis using False ne card_occurs_no_head[OF no] by simp
  qed
qed

lemma not_overlap_freeD:
  assumes "\<not> overlap_free s sub"
  shows "\<exists>i j. occurs_at s sub i \<and> occurs_at s sub j \<and> i < j \<and> j < i + length sub"
proof -
  from assms obtain i j where "occurs_at s sub i" "occurs_at s sub j"
    "j \<in> set [Suc i ..< i + length sub]"
    unfolding overlap_free_def list_all_iff by auto
  then have "occurs_at s sub i \<and> occurs_at s sub j \<and> i < j \<and> j < i + length sub" by simp
  then show ?thesis by blast
qed

lemma sum_list_strict:
  fixes f g :: "'a \<Rightarrow> nat"
  assumes "\<forall>x \<in> set xs. f x \<le> g x" and "\<exists>x \<in> set xs. f x < g x"
  shows "sum_list (map f xs) < sum_list (map g xs)"
  using assms
proof (induction xs)
  case Nil
  then show ?case by simp
next
  case (Cons x xs)
  have le: "sum_list (map f xs) \<le> sum_list (map g xs)"
    using Cons.prems(1) by (intro sum_list_mono) simp
  show ?case
  proof (cases "f x < g x")
    case True
    with le show ?thesis by simp
  next
    case False
    with Cons.prems have "\<exists>y \<in> set xs. f y < g y" "f x \<le> g x" by auto
    with Cons show ?thesis by simp
  qed
qed

lemma filler_sum_lt:
  assumes "\<not> list_all (overlap_free s) filler_words"
  shows "sum_list (map (py_count s) filler_words) < sum_list (map (occurrences s) filler_words)"
proof (rule sum_list_strict)
  show "\<forall>f \<in> set filler_words. py_count s f \<le> occurrences s f"
    by (simp add: occurrences_card[OF filler_words_nonempty]
        py_count_le_occurrences[OF filler_words_nonempty])
  from assms obtain f where f: "f \<in> set filler_words" "\<not> overlap_free s f"
    by (auto simp: list_all_iff)
  from not_overlap_freeD[OF f(2)] obtain i j where
    "occurs_at s f i" "occurs_at s f j" "i < j" "j < i + length f" by blast
  then have "py_count s f < occurrences s f"
    using py_count_lt_occurrences[OF filler_words_nonempty[OF f(1)]]
      occurrences_card[OF filler_words_nonempty[OF f(1)]] by simp
  with f(1) show "\<exists>f \<in> set filler_words. py_count s f < occurrences s f" by blast
qed

text \<open>
  Claim C3, amended. The reported filler count is the sum, over the six space-delimited
  filler strings, of Python's \<open>count\<close> on the lowercased transcript: the occurrences found
  from the left that do not overlap. It equals the total number of occurrences when no two
  occurrences of the same filler string share a character, and is smaller than that total
  otherwise. Every occurrence starts and ends with a space of the transcript, so a filler
  word at the very start or end, or next to punctuation, is not counted.
\<close>

theorem filler_count_counts_disjoint_occurrences:
  "analyze_audio_ultrafast env = Some res \<longrightarrow>
     (\<exists>text. transcript env = Some text \<and>
        filler_count res = sum_list (map (py_count (py_lower text)) filler_words) \<and>
        filler_count res \<le> total_filler_occurrences text \<and>
        (list_all (overlap_free (py_lower text)) filler_words \<longrightarrow>
           filler_count res = total_filler_occurrences text) \<and>
        (\<not> list_all (overlap_free (py_lower text)) filler_words \<longrightarrow>
           filler_count res < total_filler_occurrences text) \<and>
        (\<forall>f \<in> set filler_words. \<forall>i. occurs_at (py_lower text) f i \<longrightarrow>
           py_lower text ! i = CHR '' '' \<and> py_lower text ! (i + length f - 1) = CHR '' ''))"
proof
  assume r: "analyze_audio_ultrafast env = Some res"
  then obtain samples where d: "decoded env = Some samples"
    by (auto simp: analyze_audio_ultrafast_def split: option.splits)
  from r obtain raw dur md where w: "whisper_pipe env (take (30 * sr) samples) = Some raw"
    and rep: "audio_report env (take (30 * sr) samples) dur md (py_strip raw) = Some res"
    unfolding analyze_audio_closed[OF d] by (auto split: if_splits option.splits)
  let ?text = "py_strip raw"
  have t: "transcript env = Some ?text" by (simp add: transcript_def d w)
  have c: "filler_count res = sum_list (map (py_count (py_lower ?text)) filler_words)"
    using audio_report_wpm[OF rep] by simp
  have le: "filler_count res \<le> total_filler_occurrences ?text"
    unfolding c total_filler_occurrences_def by (rule filler_sum_le)
  have eq: "filler_count res = total_filler_occurrences ?text"
    if "list_all (overlap_free (py_lower ?text)) filler_words"
    unfolding c total_filler_occurrences_def by (rule filler_sum_eq[OF that])
  have lt: "filler_count res < total_filler_occurrences ?text"
    if "\<not> list_all (overlap_free (py_lower ?text)) filler_words"
    unfolding c total_filler_occurrences_def by (rule filler_sum_lt[OF that])
  show "\<exists>text. transcript env = Some text \<and>
        filler_count res = sum_list (map (py_count (py_lower text)) filler_words) \<and>
        filler_count res \<le> total_filler_occurrences text \<and>
        (list_all (overlap_free (py_lower text)) filler_words \<longrightarrow>
           filler_count res = total_filler_occurrences text) \<and>
        (\<not> list_all (overlap_free (py_lower text)) filler_words \<longrightarrow>
           filler_count res < total_filler_occurrences text) \<and>
        (\<forall>f \<in> set filler_words. \<forall>i. occurs_at (py_lower text) f i \<longrightarrow>
           py_lower text ! i = CHR '' '' \<and> py_lower text ! (i + length f - 1) = CHR '' '')"
    using t c le eq lt filler_occurrence_delimited by blast
qed

lemmas audio_eval = analyze_audio_ultrafast_def filler_audio_def sr_def
  audio_report_def py_strip_def py_isspace_def py_split_def py_lower_def py_lower_char_def
  py_isupper_def filler_words_def Let_def transcript_def

text \<open>
  Claim C3 as stated fails on two adjacent fillers, which share their delimiting space: the
  transcript has two occurrences of the string for "um", and the reported count is 1.
\<close>

theorem filler_count_counterexample:
  "map_option filler_count (analyze_audio_ultrafast (filler_audio ''a um um b'')) = Some 1 \<and>
   transcript (filler_audio ''a um um b'') = Some ''a um um b'' \<and>
   total_filler_occurrences ''a um um b'' = 2"
  by (simp add: audio_eval total_filler_occurrences_def occurrences_def upt_rec)

lemma said_lower: "py_lower ''Um, I like it'' = ''um, i like it''"
  by (simp add: py_lower_def py_lower_char_def py_isupper_def)

lemma said_free: "list_all (overlap_free ''um, i like it'') filler_words"
  by (simp add: overlap_free_def occurs_at_def filler_words_def upt_rec)

lemma adjacent_not_free: "\<not> list_all (overlap_free (py_lower ''a um um b'')) filler_words"
  by (simp add: py_lower_def py_lower_char_def py_isupper_def overlap_free_def occurs_at_def
      filler_words_def upt_rec)

theorem filler_count_counts_disjoint_occurrences_witness:
  "map_option filler_count (analyze_audio_ultrafast (filler_audio ''Um, I like it'')) = Some 1 \<and>
   transcript (filler_audio ''Um, I like it'') = Some ''Um, I like it'' \<and>
   list_all (overlap_free (py_lower ''Um, I like it'')) filler_words \<and>
   '' like '' \<in> set filler_words \<and> occurs_at (py_lower ''Um, I like it'') '' like '' 5 \<and>
   total_filler_occurrences ''Um, I like it'' = 1 \<and>
   \<not> list_all (overlap_free (py_lower ''a um um b'')) filler_words \<and>
   transcript (filler_audio ''a um um b'') = Some ''a um um b'' \<and>
   (\<exists>r. analyze_audio_ultrafast (filler_audio ''a um um b'') = Some r \<and>
      filler_count r < total_filler_occurrences ''a um um b'')"
proof -
  obtain r where r: "analyze_audio_ultrafast (filler_audio ''Um, I like it'') = Some r"
    by (simp add: audio_eval)
  have t: "transcript (filler_audio ''Um, I like it'') = Some ''Um, I like it''"
    by (simp add: audio_eval)
  have o: "'' like '' \<in> set filler_words" "occurs_at (py_lower ''Um, I like it'') '' like '' 5"
    by (simp_all add: filler_words_def said_lower occurs_at_def)
  have c: "sum_list (map (py_count (py_lower ''Um, I like it'')) filler_words) = 1"
    by (simp add: said_lower filler_words_def)
  obtain r2 where r2: "analyze_audio_ultrafast (filler_audio ''a um um b'') = Some r2"
    by (simp add: audio_eval)
  have t2: "transcript (filler_audio ''a um um b'') = Some ''a um um b''"
    by (simp add: audio_eval)
  have first: "map_option filler_count (analyze_audio_ultrafast (filler_audio ''Um, I like it'')) = Some 1 \<and>
      total_filler_occurrences ''Um, I like it'' = 1"
    using filler_count_counts_disjoint_occurrences[of "filler_audio ''Um, I like it''" r]
      r t c said_free
    by (auto simp: said_lower)
  have second: "filler_count r2 < total_filler_occurrences ''a um um b''"
    using filler_count_counts_disjoint_occurrences[of "filler_audio ''a um um b''" r2]
      r2 t2 adjacent_not_free
    by auto
  show ?thesis
    using first t o said_free adjacent_not_free t2 r2 second by (simp add: said_lower)
qed

section \<open>Properties of the resume text extraction\<close>

lemma extract_pages_raises:
  "PageRaises \<in> set pages \<Longrightarrow> extract_pages acc pages = Inl OtherError"
  by (induction acc pages rule: extract_pages.induct) auto

lemma extract_pages_texts:
  "PageRaises \<notin> set pages \<Longrightarrow>
     extract_pages acc pages = Inr (acc @ concat (map (\<lambda>t. t @ blank_line) (page_texts pages)))"
  by (induction acc pages rule: extract_pages.induct) (auto simp: page_texts_def blank_line_def)

text \<open>
  Claim C7. The extracted text is the concatenation of the texts of the pages that yield
  text, each followed by a blank line, stripped of surrounding whitespace; when opening the
  PDF or extracting a page raises, the result is the empty string.
\<close>

theorem extract_text_from_pdf_concatenates_pages:
  "extract_text_from_pdf pdf_open pdf_path =
     (case pdf_open pdf_path of
        None \<Rightarrow> []
      | Some pages \<Rightarrow>
          if PageRaises \<in> set pages then []
          else py_strip (concat (map (\<lambda>t. t @ blank_line) (page_texts pages))))"
  by (simp add: extract_text_from_pdf_def extract_pages_raises extract_pages_texts
      split: option.splits)

theorem extract_text_from_pdf_concatenates_pages_witness:
  "extract_text_from_pdf
     (\<lambda>p. Some [PageText (Some ''ab''), PageText None, PageText (Some []), PageText (Some ''cd '')])
     ''r.pdf'' = ''ab'' @ blank_line @ ''cd'' \<and>
   extract_text_from_pdf (\<lambda>p. Some [PageText (Some ''ab''), PageRaises]) ''r.pdf'' = []"
  using extract_text_from_pdf_concatenates_pages
    [of "\<lambda>p. Some [PageText (Some ''ab''), PageText None, PageText (Some []), PageText (Some ''cd '')]"
        "''r.pdf''"]
    extract_text_from_pdf_concatenates_pages
    [of "\<lambda>p. Some [PageText (Some ''ab''), PageRaises]" "''r.pdf''"]
  by (simp add: page_texts_def py_strip_def py_isspace_def blank_line_def)

section \<open>Properties of the answer evaluation\<close>

lemma three_attempts: "[0 ..< 3] = [0, 1, 2]"
  by (simp add: upt_rec)

lemma gemini_retry_three: "gemini_retry g prompt 3 [0 ..< 3] = api_response g prompt"
  by (simp add: three_attempts api_response_def split: option.splits)

lemma fallback_plan_no_evaluation:
  "\<not> list_all (has_key get_fallback_interview_plan) required_keys"
  by (simp add: get_fallback_interview_plan_def required_keys_def has_key_def)

lemma added_keywords_lookup:
  "map_of (r @ [(''keywords_matched'', JList [])]) k =
     (case map_of r k of Some v \<Rightarrow> Some v
      | None \<Rightarrow> if k = ''keywords_matched'' then Some (JList []) else None)"
  by (simp add: map_add_def split: option.splits)

lemma make_evaluation_with_keywords:
  assumes "list_all (has_key r) required_keys"
  shows "make_evaluation (if \<not> has_key r ''keywords_matched''
                          then r @ [(''keywords_matched'', JList [])] else r) =
         (if list_all (\<lambda>k. k \<in> set evaluation_fields) (map fst r)
          then Inr (evaluation_of_response r) else Inl TypeError)"
proof (cases "has_key r ''keywords_matched''")
  case True
  then show ?thesis using assms
    by (auto simp: make_evaluation_def evaluation_of_response_def has_key_def split: option.splits)
next
  case False
  have k: "''keywords_matched'' \<in> set evaluation_fields" by (simp add: evaluation_fields_def)
  have req: "list_all (has_key (r @ [(''keywords_matched'', JList [])])) required_keys"
    using assms by (auto simp: list_all_iff has_key_def added_keywords_lookup split: option.splits)
  have g: "dict_get (r @ [(''keywords_matched'', JList [])]) key = dict_get r key"
    if "key \<in> set required_keys" for key
    using assms that by (auto simp: list_all_iff has_key_def dict_get_def added_keywords_lookup
        split: option.splits)
  have m: "map_of r ''keywords_matched'' = None" using False by (simp add: has_key_def)
  have kw: "map_of (r @ [(''keywords_matched'', JList [])]) ''keywords_matched'' = Some (JList [])"
    using m by (simp add: added_keywords_lookup del: map_of_append)
  show ?thesis using False k req m kw
    by (simp add: make_evaluation_def evaluation_of_response_def
        g[unfolded required_keys_def, simplified] del: map_of_append)
qed

lemma evaluate_answer_cases:
  "evaluate_answer g q answer resume_keywords =
     (if \<not> model_available g then Inr fallback_evaluation
      else case api_response g (evaluation_prompt q answer resume_keywords) of
             None \<Rightarrow> Inr fallback_evaluation
           | Some r \<Rightarrow>
               if \<not> list_all (has_key r) required_keys then Inr fallback_evaluation
               else if list_all (\<lambda>k. k \<in> set evaluation_fields) (map fst r)
                    then Inr (evaluation_of_response r)
                    else Inl TypeError)"
proof (cases "model_available g")
  case False
  then show ?thesis
    using fallback_plan_no_evaluation
    by (simp add: evaluate_answer_def get_info_from_gemini_def)
next
  case True
  have nonempty: "r \<noteq> []" if "list_all (has_key r) required_keys" for r
    using that by (auto simp: required_keys_def has_key_def)
  show ?thesis
  proof (cases "api_response g (evaluation_prompt q answer resume_keywords)")
    case None
    with True show ?thesis
      by (simp add: evaluate_answer_def get_info_from_gemini_def gemini_retry_three)
  next
    case (Some r)
    show ?thesis
    proof (cases "list_all (has_key r) required_keys")
      case False
      with True Some show ?thesis
        by (simp add: evaluate_answer_def get_info_from_gemini_def gemini_retry_three)
    next
      case req: True
      have "evaluate_answer g q answer resume_keywords =
              make_evaluation (if \<not> has_key r ''keywords_matched''
                          then r @ [(''keywords_matched'', JList [])] else r)"
        using True Some req nonempty[OF req]
        by (simp add: evaluate_answer_def get_info_from_gemini_def gemini_retry_three)
      then show ?thesis
        using True Some req make_evaluation_with_keywords[OF req] by simp
    qed
  qed
qed

lemma keywords_or_empty_fallback: "keywords_or_empty fallback_evaluation = fallback_evaluation"
  by (simp add: keywords_or_empty_def fallback_evaluation_def)

text \<open>
  Claim C4, amended. With a configured client, the evaluation is read off the parsed API
  response (the first of three attempts that does not raise) when that object has the four
  keys score, feedback, suggestions and corrected_answer and no key outside the fields of
  an evaluation, with the empty list for absent keywords. When every attempt raises, or a
  required key is missing, or no client is configured, the fixed fallback evaluation with
  score 5 is returned. The service passes the evaluation on, replacing empty keywords by
  the empty list.
\<close>

theorem evaluate_answer_uses_response_or_fallback:
  "evaluate_answer g q answer resume_keywords =
     (if \<not> model_available g then Inr fallback_evaluation
      else case api_response g (evaluation_prompt q answer resume_keywords) of
             None \<Rightarrow> Inr fallback_evaluation
           | Some r \<Rightarrow>
               if \<not> list_all (has_key r) required_keys then Inr fallback_evaluation
               else if list_all (\<lambda>k. k \<in> set evaluation_fields) (map fst r)
                    then Inr (evaluation_of_response r)
                    else Inl TypeError) \<and>
   evaluate_interview_answer g question_data answer resume_keywords =
     (if \<not> model_available g then Inr fallback_evaluation
      else case api_response g
                  (evaluation_prompt (question_from_data question_data) answer resume_keywords) of
             None \<Rightarrow> Inr fallback_evaluation
           | Some r \<Rightarrow>
               if \<not> list_all (has_key r) required_keys then Inr fallback_evaluation
               else if list_all (\<lambda>k. k \<in> set evaluation_fields) (map fst r)
                    then Inr (keywords_or_empty (evaluation_of_response r))
                    else Inl TypeError)"
proof
  show "evaluate_answer g q answer resume_keywords =
     (if \<not> model_available g then Inr fallback_evaluation
      else case api_response g (evaluation_prompt q answer resume_keywords) of
             None \<Rightarrow> Inr fallback_evaluation
           | Some r \<Rightarrow>
               if \<not> list_all (has_key r) required_keys then Inr fallback_evaluation
               else if list_all (\<lambda>k. k \<in> set evaluation_fields) (map fst r)
                    then Inr (evaluation_of_response r)
                    else Inl TypeError)"
    by (rule evaluate_answer_cases)
  have fb: "fallback_evaluation\<lparr>keywords_matched :=
              (if truthy (keywords_matched fallback_evaluation)
               then keywords_matched fallback_evaluation else JList [])\<rparr> = fallback_evaluation"
    using keywords_or_empty_fallback by (simp add: keywords_or_empty_def)
  show "evaluate_interview_answer g question_data answer resume_keywords =
     (if \<not> model_available g then Inr fallback_evaluation
      else case api_response g
                  (evaluation_prompt (question_from_data question_data) answer resume_keywords) of
             None \<Rightarrow> Inr fallback_evaluation
           | Some r \<Rightarrow>
               if \<not> list_all (has_key r) required_keys then Inr fallback_evaluation
               else if list_all (\<lambda>k. k \<in> set evaluation_fields) (map fst r)
                    then Inr (keywords_or_empty (evaluation_of_response r))
                    else Inl TypeError)"
    unfolding evaluate_interview_answer_def evaluate_answer_cases
    by (simp add: fb keywords_or_empty_def split: option.splits)
qed

lemma failing_response: "api_response failing_gemini prompt = None"
  by (simp add: api_response_def gemini_attempt_def failing_gemini_def)

lemma answering_response: "api_response answering_gemini prompt = Some sample_response"
  by (simp add: api_response_def gemini_attempt_def answering_gemini_def json_text_of_def
      py_strip_def py_isspace_def)

lemma sample_clients_available:
  "model_available failing_gemini" "model_available answering_gemini"
  by (simp_all add: failing_gemini_def answering_gemini_def)

text \<open>
  Claim C4 as stated fails when the API gives no response: an evaluation is still returned,
  the fallback, which does not come from the API.
\<close>

theorem evaluation_without_api_response_counterexample:
  "api_response failing_gemini (evaluation_prompt sample_question ''Because.'' None) = None \<and>
   evaluate_answer failing_gemini sample_question ''Because.'' None = Inr fallback_evaluation \<and>
   evaluate_interview_answer failing_gemini [(''question'', ''Why us?'')] ''Because.'' None
     = Inr fallback_evaluation \<and>
   score fallback_evaluation = JInt 5"
  by (simp add: evaluate_answer_cases failing_response evaluate_interview_answer_def
      sample_clients_available fallback_evaluation_def)

theorem evaluate_answer_uses_response_or_fallback_witness:
  "evaluate_answer answering_gemini sample_question ''Because.'' None =
     Inr \<lparr>score = JInt 8, feedback = JStr ''Clear.'', suggestions = JStr ''- More detail'',
          corrected_answer = JStr ''Better.'', keywords_matched = JList []\<rparr> \<and>
   evaluate_interview_answer failing_gemini [(''question'', ''Why us?'')] ''Because.'' None =
     Inr fallback_evaluation"
  using evaluate_answer_uses_response_or_fallback
      [of answering_gemini sample_question "''Because.''" None "[]"]
    evaluate_answer_uses_response_or_fallback
      [of failing_gemini sample_question "''Because.''" None "[(''question'', ''Why us?'')]"]
  by (simp add: failing_response answering_response sample_clients_available
      sample_response_def required_keys_def evaluation_fields_def has_key_def
      evaluation_of_response_def dict_get_def)

section \<open>Properties of the JWT middleware\<close>

lemma token_required_cases:
  "token_required decode f authorization =
     (case bearer_token authorization of
        None \<Rightarrow> Inr (Rejected 401 (if authorization = None then ''Token is missing''
                                   else ''Invalid token format''))
      | Some t \<Rightarrow>
          if t = [] then Inr (Rejected 401 ''Token is missing'')
          else (case decode t of
                  ExpiredSignatureError \<Rightarrow> Inr (Rejected 401 ''Token has expired'')
                | InvalidTokenError \<Rightarrow> Inr (Rejected 401 ''Invalid token'')
                | Payload data \<Rightarrow>
                    (case map_of data ''user_id'' of
                       None \<Rightarrow> Inl KeyError
                     | Some uid \<Rightarrow> Inr (Invoked (f uid)))))"
  by (auto simp: token_required_def bearer_token_def py_index_def
      split: option.splits list.splits jwt_outcome.splits)

text \<open>
  Claim C5. The decorator answers 401 without calling the handler when the header is
  absent, has no second piece, has an empty one, or \<open>jwt.decode\<close> raises; it calls the
  handler on the payload's user id when there is one (lemma \<open>token_required_cases\<close>).
  A token that decodes to a payload without \<open>user_id\<close> is the case the claim does not
  survive: the lookup raises KeyError, which the decorator does not catch, so the request
  is answered neither with 401 nor by the handler.
\<close>

theorem token_without_user_id_raises:
  "anonymous_decode ''signed'' = Payload [(''exp'', JInt 4102444800)] \<and>
   token_required anonymous_decode (\<lambda>user_id. ''handled'') (Some ''Bearer signed'') = Inl KeyError"
  by (simp add: token_required_def anonymous_decode_def py_split_sep_def py_index_def)

section \<open>Properties of the analysis routes\<close>

subsection \<open>Ownership\<close>

lemma delete_one_others:
  assumes "\<And>d. P d \<Longrightarrow> a_user_id d = user_id"
  shows "records_of_others user_id (snd (delete_one P docs)) = records_of_others user_id docs"
  using assms
  by (induction docs) (auto simp: records_of_others_def split: prod.splits)

lemma delete_one_removed:
  "d \<in> set docs \<Longrightarrow> d \<notin> set (snd (delete_one P docs)) \<Longrightarrow> P d"
  by (induction docs) (auto split: prod.splits if_splits)

lemma delete_one_subset: "set (snd (delete_one P docs)) \<subseteq> set docs"
  by (induction docs) (auto split: prod.splits if_splits)

lemma Analysis_delete_analysis_others:
  "records_of_others user_id (snd (Analysis_delete_analysis ObjectId docs analysis_id user_id))
     = records_of_others user_id docs"
proof (cases "ObjectId analysis_id")
  case None
  then show ?thesis by (simp add: Analysis_delete_analysis_def)
next
  case (Some oid)
  have "records_of_others user_id (snd (delete_one (\<lambda>d. a_id d = oid \<and> a_user_id d = user_id) docs))
          = records_of_others user_id docs"
    by (rule delete_one_others) simp
  with Some show ?thesis by (auto simp: Analysis_delete_analysis_def split: prod.splits)
qed

lemma Analysis_delete_analysis_removed:
  assumes "d \<in> set docs"
    and "d \<notin> set (snd (Analysis_delete_analysis ObjectId docs analysis_id user_id))"
  shows "a_user_id d = user_id \<and> ObjectId analysis_id = Some (a_id d)"
proof (cases "ObjectId analysis_id")
  case None
  with assms show ?thesis by (simp add: Analysis_delete_analysis_def)
next
  case (Some oid)
  with assms have "d \<notin> set (snd (delete_one (\<lambda>d. a_id d = oid \<and> a_user_id d = user_id) docs))"
    by (simp add: Analysis_delete_analysis_def split: prod.splits)
  from delete_one_removed[OF assms(1) this] Some show ?thesis by simp
qed

lemma delete_analysis_docs:
  "analyses (snd (delete_analysis ObjectId st uid aid)) = analyses st \<or>
   analyses (snd (delete_analysis ObjectId st uid aid))
     = snd (Analysis_delete_analysis ObjectId (analyses st) aid uid)"
  by (auto simp: delete_analysis_def Let_def split: option.splits prod.splits)

lemma get_analysis_by_id_Some:
  "get_analysis_by_id ObjectId docs aid = Some d \<Longrightarrow>
     d \<in> set docs \<and> ObjectId aid = Some (a_id d)"
  by (auto simp: get_analysis_by_id_def find_Some_iff split: option.splits)

text \<open>
  Claim C10. The download route sends a report only for a record whose user id is the
  requester's, and answers 403 for a record of another user; the delete route and the
  model's delete leave every record of other users in place, and a record that disappears
  has the requested id and the requester's user id.
\<close>

theorem analyses_of_other_users_protected:
  "(download_report ObjectId st uid aid = FileResponse p \<longrightarrow>
      (\<exists>d \<in> set (analyses st). a_user_id d = uid \<and> ObjectId aid = Some (a_id d) \<and>
         a_report_path d = Some p)) \<and>
   (get_analysis_by_id ObjectId (analyses st) aid = Some d \<and> a_user_id d \<noteq> uid \<longrightarrow>
      download_report ObjectId st uid aid = JsonResponse 403 ''Unauthorized access'') \<and>
   records_of_others uid (analyses (snd (delete_analysis ObjectId st uid aid)))
     = records_of_others uid (analyses st) \<and>
   (\<forall>r \<in> set (analyses st). r \<notin> set (analyses (snd (delete_analysis ObjectId st uid aid))) \<longrightarrow>
      a_user_id r = uid \<and> ObjectId aid = Some (a_id r)) \<and>
   records_of_others uid (snd (Analysis_delete_analysis ObjectId docs aid uid))
     = records_of_others uid docs"
proof (intro conjI impI ballI)
  assume "download_report ObjectId st uid aid = FileResponse p"
  then obtain a where a: "get_analysis_by_id ObjectId (analyses st) aid = Some a"
    "a_user_id a = uid" "a_report_path a = Some p"
    by (auto simp: download_report_def split: option.splits if_splits)
  with get_analysis_by_id_Some[OF a(1)]
  show "\<exists>d \<in> set (analyses st). a_user_id d = uid \<and> ObjectId aid = Some (a_id d) \<and>
         a_report_path d = Some p" by blast
next
  assume "get_analysis_by_id ObjectId (analyses st) aid = Some d \<and> a_user_id d \<noteq> uid"
  then show "download_report ObjectId st uid aid = JsonResponse 403 ''Unauthorized access''"
    by (simp add: download_report_def)
next
  show "records_of_others uid (analyses (snd (delete_analysis ObjectId st uid aid)))
     = records_of_others uid (analyses st)"
    using delete_analysis_docs[of ObjectId st uid aid] Analysis_delete_analysis_others[of uid ObjectId "analyses st" aid]
    by auto
next
  fix r assume r: "r \<in> set (analyses st)"
    "r \<notin> set (analyses (snd (delete_analysis ObjectId st uid aid)))"
  then have "r \<notin> set (snd (Analysis_delete_analysis ObjectId (analyses st) aid uid))"
    using delete_analysis_docs[of ObjectId st uid aid] by auto
  then have "a_user_id r = uid \<and> ObjectId aid = Some (a_id r)"
    using Analysis_delete_analysis_removed[OF r(1)] by blast
  then show "a_user_id r = uid" "ObjectId aid = Some (a_id r)" by simp_all
next
  show "records_of_others uid (snd (Analysis_delete_analysis ObjectId docs aid uid))
     = records_of_others uid docs"
    by (rule Analysis_delete_analysis_others)
qed

theorem analyses_of_other_users_protected_witness:
  "download_report digit_id two_users ''ann'' ''1'' = FileResponse ''r1.docx'' \<and>
   get_analysis_by_id digit_id (analyses two_users) ''2'' = Some (analyses two_users ! 1) \<and>
   a_user_id (analyses two_users ! 1) \<noteq> ''ann'' \<and>
   download_report digit_id two_users ''ann'' ''2'' = JsonResponse 403 ''Unauthorized access'' \<and>
   delete_analysis digit_id two_users ''ann'' ''2''
     = (JsonResponse 404 ''Analysis not found or unauthorized'', two_users) \<and>
   analyses two_users ! 0 \<in> set (analyses two_users) \<and>
   analyses (snd (delete_analysis digit_id two_users ''ann'' ''1'')) = [analyses two_users ! 1] \<and>
   fst (delete_analysis digit_id two_users ''ann'' ''1'')
     = JsonResponse 200 ''Analysis deleted successfully''"
  using analyses_of_other_users_protected
      [of digit_id two_users "''ann''" "''1''" "''r1.docx''" "analyses two_users ! 0" "[]"]
    analyses_of_other_users_protected
      [of digit_id two_users "''ann''" "''2''" "''r2.docx''" "analyses two_users ! 1" "[]"]
  by (simp add: download_report_def delete_analysis_def get_analysis_by_id_def digit_id_def
      two_users_def path_exists_def Analysis_delete_analysis_def delete_file_def os_remove_def
      upt_rec Let_def)

subsection \<open>Cleanup of the uploaded video\<close>

lemma os_remove_cases:
  "os_remove fsx p =
     (case removals fsx of
        [] \<Rightarrow> (Removed, fsx\<lparr>files := removeAll p (files fsx)\<rparr>)
      | Removed # rest \<Rightarrow> (Removed, fsx\<lparr>files := removeAll p (files fsx), removals := rest\<rparr>)
      | PermissionDenied # rest \<Rightarrow> (PermissionDenied, fsx\<lparr>removals := rest\<rparr>)
      | RemoveFails # rest \<Rightarrow> (RemoveFails, fsx\<lparr>removals := rest\<rparr>))"
  by (simp add: os_remove_def split: list.splits remove_outcome.splits)

lemma delete_attempts_file:
  assumes "p \<in> set (files fsx)" and "4 \<notin> set (butlast attempts)"
  shows "(p \<in> set (files (snd (delete_attempts attempts fsx p))))
           = (\<not> removal_succeeds (length attempts) (removals fsx))"
  using assms
proof (induction attempts arbitrary: fsx)
  case Nil
  then show ?case by simp
next
  case (Cons a rest)
  show ?case
  proof (cases "removals fsx")
    case Nil
    then show ?thesis by (simp add: os_remove_cases)
  next
    case (Cons r rs)
    show ?thesis
    proof (cases r)
      case Removed
      with Cons show ?thesis by (simp add: os_remove_cases)
    next
      case RemoveFails
      with Cons Cons.prems show ?thesis by (simp add: os_remove_cases)
    next
      case PermissionDenied
      show ?thesis
      proof (cases "rest = []")
        case True
        with PermissionDenied Cons Cons.prems show ?thesis by (simp add: os_remove_cases)
      next
        case False
        with Cons.prems have a: "a \<noteq> 4" and b: "4 \<notin> set (butlast rest)" by auto
        have "(p \<in> set (files (snd (delete_attempts rest (fsx\<lparr>removals := rs\<rparr>) p))))
                = (\<not> removal_succeeds (length rest) rs)"
          using Cons.IH[of "fsx\<lparr>removals := rs\<rparr>"] Cons.prems(1) b by simp
        with PermissionDenied Cons a show ?thesis by (simp add: os_remove_cases)
      qed
    qed
  qed
qed

lemma five_attempts: "[0 ..< 5] = [0, 1, 2, 3, 4]"
  by (simp add: upt_rec)

lemma delete_file_file:
  assumes "p \<in> set (files fsx)" and "p \<noteq> []"
  shows "(p \<in> set (files (snd (delete_file fsx p)))) = (\<not> removal_succeeds 5 (removals fsx))"
proof -
  have len: "length [0, 1, 2, 3, 4 :: nat] = 5" by simp
  have "4 \<notin> set (butlast [0, 1, 2, 3, 4 :: nat])" by simp
  from delete_attempts_file[OF assms(1) this]
  have "(p \<in> set (files (snd (delete_attempts [0, 1, 2, 3, 4] fsx p))))
          = (\<not> removal_succeeds 5 (removals fsx))"
    unfolding len .
  moreover have "delete_file fsx p = delete_attempts [0, 1, 2, 3, 4] fsx p"
    using assms by (simp add: delete_file_def path_exists_def five_attempts
        del: delete_attempts.simps)
  ultimately show ?thesis by (simp del: delete_attempts.simps)
qed

lemma cleanup_upload_file:
  assumes "p \<noteq> []"
  shows "(p \<in> set (files (cleanup_upload fsx p)))
           = (p \<in> set (files fsx) \<and> \<not> removal_succeeds 5 (removals fsx))"
  using delete_file_file[OF _ assms, of fsx]
  by (auto simp: cleanup_upload_def path_exists_def)

lemma save_file_path_nonempty:
  "save_file env fsx file subfolder = Inr ((Some video_path, err), fs0) \<Longrightarrow> video_path \<noteq> []"
  by (auto simp: save_file_def path_join_def Let_def split: if_splits sum.splits)

lemma analyze_saved_video_files:
  "analysis_service env (files fs0) p = (out, files1) \<Longrightarrow>
     snd (snd (analyze_saved_video env docs fs0 uid p)) = fs0\<lparr>files := files1\<rparr>"
  by (cases out) (auto simp: analyze_saved_video_def Let_def split: option.splits)

lemma save_file_removals:
  "save_file env fsx file subfolder = Inr (r, fs0) \<Longrightarrow> removals fs0 = removals fsx"
  by (auto simp: save_file_def Let_def split: if_splits sum.splits)

lemma save_file_with_removals:
  "save_file env (fsx\<lparr>removals := rs\<rparr>) file subfolder =
     (case save_file env fsx file subfolder of
        Inl e \<Rightarrow> Inl e
      | Inr (r, fs0) \<Rightarrow> Inr (r, fs0\<lparr>removals := rs\<rparr>))"
  by (auto simp: save_file_def Let_def split: sum.splits)

lemma analyze_saved_video_with_removals:
  "analyze_saved_video env docs (fs0\<lparr>removals := rs\<rparr>) uid p =
     (case analyze_saved_video env docs fs0 uid p of
        (outcome, docs', fs1) \<Rightarrow> (outcome, docs', fs1\<lparr>removals := rs\<rparr>))"
  by (auto simp: analyze_saved_video_def Let_def split: prod.splits option.splits)

lemma analyze_video_with_removals:
  "fst (analyze_video env (with_removals st rs) uid video) = fst (analyze_video env st uid video) \<and>
   analyses (snd (analyze_video env (with_removals st rs) uid video))
     = analyses (snd (analyze_video env st uid video))"
  by (auto simp: analyze_video_def with_removals_def save_file_with_removals
      analyze_saved_video_with_removals Let_def
      split: option.splits sum.splits prod.splits)

text \<open>
  Claim C6, amended. When the upload was saved, the route tries to delete it after the
  analysis on every path: whatever the service returns and whether or not the later steps
  raise, the file is gone after the request unless it still existed after the analysis and
  none of the five attempts to remove it succeeded. What the removals do changes neither
  the response nor the stored records.
\<close>

theorem upload_removed_unless_removal_fails:
  assumes "filename file \<noteq> []"
    and "save_file env (fs st) file ''videos'' = Inr ((Some video_path, None), fs0)"
    and "analysis_service env (files fs0) video_path = (out, files1)"
  shows "(video_path \<in> set (files (fs (snd (analyze_video env st uid (Some file))))))
           = (video_path \<in> set files1 \<and> \<not> removal_succeeds 5 (removals (fs st))) \<and>
         fst (analyze_video env (with_removals st rs) uid (Some file))
           = fst (analyze_video env st uid (Some file)) \<and>
         analyses (snd (analyze_video env (with_removals st rs) uid (Some file)))
           = analyses (snd (analyze_video env st uid (Some file)))"
proof -
  let ?fs1 = "fs0\<lparr>files := files1\<rparr>"
  obtain outcome docs' fsa where a: "analyze_saved_video env (analyses st) fs0 uid video_path
      = (outcome, docs', fsa)"
    by (cases "analyze_saved_video env (analyses st) fs0 uid video_path") auto
  with analyze_saved_video_files[OF assms(3), of "analyses st" uid] have fsa: "fsa = ?fs1" by simp
  have "fs (snd (analyze_video env st uid (Some file))) = cleanup_upload ?fs1 video_path"
    using assms(1,2) a fsa by (simp add: analyze_video_def Let_def split: sum.splits)
  then have "(video_path \<in> set (files (fs (snd (analyze_video env st uid (Some file))))))
           = (video_path \<in> set files1 \<and> \<not> removal_succeeds 5 (removals (fs st)))"
    using cleanup_upload_file[OF save_file_path_nonempty[OF assms(2)], of ?fs1]
      save_file_removals[OF assms(2)] by simp
  then show ?thesis using analyze_video_with_removals[of env st rs uid "Some file"] by simp
qed

lemmas upload_eval = analyze_video_def save_file_def allowed_file_def after_last_dot_def
  ALLOWED_EXTENSIONS_def py_lower_def py_lower_char_def py_isupper_def path_join_def
  locked_env_def analyze_saved_video_def cleanup_upload_def delete_file_def path_exists_def
  os_remove_def five_attempts Let_def

text \<open>
  Claim C6 as stated fails when the file stays locked: all five removals raise
  PermissionError, the request succeeds, and the upload is still in the upload directory.
\<close>

theorem upload_kept_when_locked_counterexample:
  "save_file locked_env (fs locked_server) \<lparr>filename = ''talk.MP4''\<rparr> ''videos''
     = Inr ((Some ''uploads/videos/ab12.mp4'', None),
            \<lparr>files = [''uploads/videos/ab12.mp4''], unreadable = [],
             removals = replicate 5 PermissionDenied\<rparr>) \<and>
   fst (analyze_video locked_env locked_server ''ann'' (Some \<lparr>filename = ''talk.MP4''\<rparr>))
     = JsonResponse 200 ''Video analysis completed successfully'' \<and>
   ''uploads/videos/ab12.mp4'' \<in> set (files (fs (snd
       (analyze_video locked_env locked_server ''ann'' (Some \<lparr>filename = ''talk.MP4''\<rparr>)))))"
  by (simp add: upload_eval locked_server_def eval_nat_numeral)

theorem upload_removed_unless_removal_fails_witness:
  "filename \<lparr>filename = ''talk.MP4''\<rparr> \<noteq> [] \<and>
   save_file locked_env (fs unlocked_server) \<lparr>filename = ''talk.MP4''\<rparr> ''videos''
     = Inr ((Some ''uploads/videos/ab12.mp4'', None),
            \<lparr>files = [''uploads/videos/ab12.mp4''], unreadable = [],
             removals = [PermissionDenied, Removed]\<rparr>) \<and>
   removal_succeeds 5 (removals (fs unlocked_server)) \<and>
   ''uploads/videos/ab12.mp4'' \<notin> set (files (fs (snd
       (analyze_video locked_env unlocked_server ''ann'' (Some \<lparr>filename = ''talk.MP4''\<rparr>))))) \<and>
   with_removals unlocked_server (replicate 5 PermissionDenied) = locked_server \<and>
   fst (analyze_video locked_env locked_server ''ann'' (Some \<lparr>filename = ''talk.MP4''\<rparr>))
     = fst (analyze_video locked_env unlocked_server ''ann'' (Some \<lparr>filename = ''talk.MP4''\<rparr>))"
proof -
  let ?fs0 = "\<lparr>files = [''uploads/videos/ab12.mp4''], unreadable = [],
             removals = [PermissionDenied, Removed]\<rparr>"
  have n: "filename \<lparr>filename = ''talk.MP4''\<rparr> \<noteq> []" by simp
  have s: "save_file locked_env (fs unlocked_server) \<lparr>filename = ''talk.MP4''\<rparr> ''videos''
     = Inr ((Some ''uploads/videos/ab12.mp4'', None), ?fs0)"
    by (simp add: upload_eval unlocked_server_def)
  have a: "analysis_service locked_env (files ?fs0) ''uploads/videos/ab12.mp4''
     = ((Some (JInt 70), Some ''uploads/videos/report.docx'', None), [''uploads/videos/ab12.mp4''])"
    by (simp add: locked_env_def)
  have r: "removal_succeeds 5 (removals (fs unlocked_server))"
    by (simp add: unlocked_server_def eval_nat_numeral)
  have w: "with_removals unlocked_server (replicate 5 PermissionDenied) = locked_server"
    by (simp add: with_removals_def unlocked_server_def locked_server_def)
  show ?thesis
    using upload_removed_unless_removal_fails[OF n s a, of "''ann''" "replicate 5 PermissionDenied"]
      n s r w
    by simp
qed

section \<open>Properties of the account routes\<close>

lemma update_first_inv:
  assumes "no_password_hash docs"
    and "\<And>d. map_of d ''password_hash'' = None \<Longrightarrow> map_of (f d) ''password_hash'' = None"
  shows "no_password_hash (update_first P f docs)"
  using assms by (induction docs) (auto simp: no_password_hash_def)

lemma set_fields_lookup:
  "k \<notin> set (map fst update_data) \<Longrightarrow> map_of (set_fields update_data d) k = map_of d k"
proof (induction update_data arbitrary: d)
  case Nil
  then show ?case by (simp add: set_fields_def)
next
  case (Cons kv rest)
  obtain k' v where kv: "kv = (k', v)" by (cases kv)
  have "map_of (set_fields rest (AList.update k' v d)) k = map_of (AList.update k' v d) k"
    using Cons by simp
  then show ?case using Cons.prems kv by (simp add: set_fields_def update_conv')
qed

lemma create_user_inv:
  "no_password_hash docs \<Longrightarrow>
     no_password_hash (snd (create_user env reg docs email password full_name))"
  by (auto simp: create_user_def no_password_hash_def Let_def split: option.splits)

lemma update_user_inv:
  assumes "no_password_hash docs" and "set (map fst update_data) \<subseteq> set allowed_fields"
  shows "no_password_hash (snd (update_user env utcnow docs user_id update_data))"
proof (cases "object_id env user_id")
  case None
  with assms show ?thesis by (simp add: update_user_def)
next
  case (Some oid)
  have "''password_hash'' \<notin> set (map fst (AList.update ''updated_at'' (BDate utcnow) update_data))"
    using assms(2) by (auto simp: allowed_fields_def update_keys)
  then have "map_of (set_fields (AList.update ''updated_at'' (BDate utcnow) update_data) d)
               ''password_hash'' = map_of d ''password_hash''" for d
    by (rule set_fields_lookup)
  then show ?thesis using Some assms(1)
    by (simp add: update_user_def Let_def update_first_inv)
qed

lemma inc_analyses_used_lookup:
  "map_of (inc_analyses_used d) ''password_hash'' = map_of d ''password_hash''"
  by (simp add: inc_analyses_used_def update_conv' split: option.splits bson.splits json.splits)

lemma increment_inv:
  "no_password_hash docs \<Longrightarrow> no_password_hash (increment_analyses_count env docs user_id)"
  by (simp add: increment_analyses_count_def update_first_inv inc_analyses_used_lookup
      split: option.splits)

lemma get_user_no_hash:
  assumes "no_password_hash docs" and "get_user_by_id env docs user_id = Some user"
  shows "map_of user ''password_hash'' = None \<and> map_of user ''password'' = None"
proof -
  from assms(2) obtain oid d where d: "find_one ''_id'' (BObjectId oid) docs = Some d"
    and u: "user = serialize_user env oid d"
    by (auto simp: get_user_by_id_def split: option.splits)
  from d have "d \<in> set docs" by (auto simp: find_one_def find_Some_iff)
  with assms(1) have "map_of d ''password_hash'' = None"
    by (simp add: no_password_hash_def list_all_iff)
  then show ?thesis by (simp add: u serialize_user_def update_conv' delete_conv')
qed

lemma verify_without_hash:
  "map_of user ''password_hash'' = None \<Longrightarrow> verify_password env user password = Inr False"
  by (simp add: verify_password_def check_password_hash_def py_split_sep_def)

lemma change_password_body_rejects:
  assumes "no_password_hash (users st)"
  shows "case change_password_body env st uid req of
           Inl e \<Rightarrow> True
         | Inr (resp, st') \<Rightarrow> st' = st \<and> status_code resp \<in> {400, 401, 404}"
  using get_user_no_hash[OF assms, of env uid] verify_without_hash[of _ env]
  by (auto simp: change_password_body_def status_code_def
      split: request_json.splits sum.splits option.splits)

lemma delete_account_body_rejects:
  assumes "no_password_hash (users st)"
  shows "case delete_account_body env st uid req of
           Inl e \<Rightarrow> True
         | Inr (resp, st') \<Rightarrow> st' = st \<and> status_code resp \<in> {400, 401, 404}"
  using get_user_no_hash[OF assms, of env uid] verify_without_hash[of _ env]
  by (auto simp: delete_account_body_def status_code_def Let_def
      split: request_json.splits sum.splits option.splits)

lemma change_password_rejects:
  assumes "no_password_hash (users st)"
  shows "snd (change_password env st uid req) = st \<and>
         status_code (fst (change_password env st uid req)) \<in> {400, 401, 404, 500}"
  using change_password_body_rejects[OF assms, of env uid req]
  by (auto simp: change_password_def status_code_def split: sum.splits)

lemma delete_account_rejects:
  assumes "no_password_hash (users st)"
  shows "snd (delete_account env st uid req) = st \<and>
         status_code (fst (delete_account env st uid req)) \<in> {400, 401, 404, 500}"
  using delete_account_body_rejects[OF assms, of env uid req]
  by (auto simp: delete_account_def status_code_def split: sum.splits)

lemma reset_analyses_used_lookup:
  "reset_analyses_used d = Some d' \<Longrightarrow> map_of d' ''password_hash'' = map_of d ''password_hash''"
  by (auto simp: reset_analyses_used_def update_conv' split: option.splits bson.splits)

lemma clear_user_data_inv:
  assumes "no_password_hash (users st)"
  shows "no_password_hash (users (snd (clear_user_data env st uid)))"
proof -
  have "no_password_hash (update_first P (\<lambda>x. d') (users st))"
    if "find_one ''_id'' v (users st) = Some d" "reset_analyses_used d = Some d'" for P v d d'
  proof (rule update_first_inv[OF assms])
    from that(1) have "d \<in> set (users st)" by (auto simp: find_one_def find_Some_iff)
    with assms have "map_of d ''password_hash'' = None"
      by (simp add: no_password_hash_def list_all_iff)
    then show "map_of d' ''password_hash'' = None" using reset_analyses_used_lookup[OF that(2)] by simp
  qed
  then show ?thesis using assms
    by (auto simp: clear_user_data_def Let_def split: option.splits)
qed

lemma reachable_no_password_hash: "reachable env st \<Longrightarrow> no_password_hash (users st)"
proof (induction rule: reachable.induct)
  case (start analyses0 files0)
  then show ?case by (simp add: no_password_hash_def)
next
  case (register st reg email password full_name)
  then show ?case by (simp add: create_user_inv)
next
  case (update st update_data utcnow user_id)
  then show ?case by (simp add: update_user_inv)
next
  case (increment st user_id)
  then show ?case by (simp add: increment_inv)
next
  case (change st user_id req)
  then show ?case by (simp add: change_password_rejects)
next
  case (delete st user_id req)
  then show ?case by (simp add: delete_account_rejects)
next
  case (clear st user_id)
  then show ?case by (simp add: clear_user_data_inv)
next
  case (other st analyses' files')
  then show ?case by simp
qed

lemma create_user_stores_password:
  assumes "find_one ''email'' (BJson (JStr (py_lower email))) docs = None"
  shows "map_of (last (snd (create_user env reg docs email password full_name))) ''password''
           = Some (BBytes (bcrypt_hashpw env password (gensalt reg))) \<and>
         map_of (last (snd (create_user env reg docs email password full_name))) ''password_hash''
           = None"
  using assms by (simp add: create_user_def Let_def)

text \<open>
  Claim C8. In every state that the account operations produce, no user document has a
  \<open>password_hash\<close> field: registration stores the bcrypt hash under \<open>password\<close>, and
  serialization removes that field. So the verification in the change-password and
  delete-account routes fails for every submitted password: the routes answer 400, 401, 404
  or 500, never reach the success branch, and leave users, analyses and files as they were.
\<close>

theorem password_verification_never_succeeds:
  assumes "reachable env st"
  shows "status_code (fst (change_password env st uid req)) \<in> {400, 401, 404, 500} \<and>
         snd (change_password env st uid req) = st \<and>
         status_code (fst (delete_account env st uid req')) \<in> {400, 401, 404, 500} \<and>
         snd (delete_account env st uid req') = st \<and>
         (\<forall>user. get_user_by_id env (users st) uid = Some user \<longrightarrow>
            map_of user ''password_hash'' = None \<and> map_of user ''password'' = None \<and>
            verify_password env user submitted = Inr False) \<and>
         (find_one ''email'' (BJson (JStr (py_lower email))) (users st) = None \<longrightarrow>
            map_of (last (snd (create_user env reg (users st) email password full_name)))
              ''password'' = Some (BBytes (bcrypt_hashpw env password (gensalt reg))) \<and>
            map_of (last (snd (create_user env reg (users st) email password full_name)))
              ''password_hash'' = None)"
proof -
  have inv: "no_password_hash (users st)" using assms by (rule reachable_no_password_hash)
  have "map_of user ''password_hash'' = None \<and> map_of user ''password'' = None \<and>
            verify_password env user submitted = Inr False"
    if "get_user_by_id env (users st) uid = Some user" for user
    using get_user_no_hash[OF inv that] verify_without_hash[of user env submitted] by simp
  then show ?thesis
    using change_password_rejects[OF inv, of env uid req]
      delete_account_rejects[OF inv, of env uid req'] create_user_stores_password
    by blast
qed

lemma registered_reachable: "reachable sample_auth_env registered"
proof -
  have "reachable sample_auth_env empty_state"
    unfolding empty_state_def by (rule reachable.start)
  then have "reachable sample_auth_env ann_registered"
    unfolding ann_registered_def by (rule reachable.register)
  then show ?thesis
    unfolding registered_def by (rule reachable.register)
qed

lemmas auth_eval = change_password_def change_password_body_def delete_account_def
  delete_account_body_def get_user_by_id_def find_one_def serialize_user_def
  verify_password_def check_password_hash_def py_split_sep_def has_key_def Let_def

lemma registered_users:
  "users registered =
     [[(''email'', BJson (JStr ''ann@example.org'')),
       (''password'', BBytes ''$2b$12$s1.secret1''),
       (''full_name'', BJson (JStr ''Ann'')), (''created_at'', BDate 10),
       (''updated_at'', BDate 10),
       (''profile'', BDoc [(''phone'', BJson (JStr [])), (''linkedin'', BJson (JStr [])),
                           (''location'', BJson (JStr []))]),
       (''subscription'', BDoc [(''plan'', BJson (JStr ''free'')),
                                (''analyses_used'', BJson (JInt 0)),
                                (''analyses_limit'', BJson (JInt 5))]),
       (''_id'', BObjectId 1)],
      [(''email'', BJson (JStr ''bob@example.org'')),
       (''password'', BBytes ''$2b$12$s2.hunter22''),
       (''full_name'', BJson (JStr ''Bob'')), (''created_at'', BDate 20),
       (''updated_at'', BDate 20),
       (''profile'', BDoc [(''phone'', BJson (JStr [])), (''linkedin'', BJson (JStr [])),
                           (''location'', BJson (JStr []))]),
       (''subscription'', BDoc [(''plan'', BJson (JStr ''free'')),
                                (''analyses_used'', BJson (JInt 0)),
                                (''analyses_limit'', BJson (JInt 5))]),
       (''_id'', BObjectId 2)]]"
  by (simp add: registered_def ann_registered_def empty_state_def create_user_def
      sample_auth_env_def find_one_def Let_def py_lower_def py_lower_char_def py_isupper_def)

theorem password_verification_never_succeeds_witness:
  "reachable sample_auth_env registered \<and>
   map (\<lambda>d. map_of d ''_id'') (users registered) = [Some (BObjectId 1), Some (BObjectId 2)] \<and>
   change_password sample_auth_env registered ''2''
     (GetJson (JDict [(''current_password'', JStr ''hunter22''), (''new_password'', JStr ''hunter33'')]))
     = (JsonResponse 401 ''Current password is incorrect'', registered) \<and>
   delete_account sample_auth_env registered ''1'' (GetJson (JDict [(''password'', JStr ''secret1'')]))
     = (JsonResponse 401 ''Incorrect password'', registered) \<and>
   find_one ''email'' (BJson (JStr (py_lower ''cy@example.org''))) (users registered) = None"
proof -
  have e: "object_id sample_auth_env ''1'' = Some 1" "object_id sample_auth_env ''2'' = Some 2"
    "str_of_id sample_auth_env 1 = ''1''" "str_of_id sample_auth_env 2 = ''2''"
    by (simp_all add: sample_auth_env_def)
  have l: "py_lower ''cy@example.org'' = ''cy@example.org''"
    by (simp add: py_lower_def py_lower_char_def py_isupper_def)
  have c: "change_password sample_auth_env registered ''2''
     (GetJson (JDict [(''current_password'', JStr ''hunter22''), (''new_password'', JStr ''hunter33'')]))
     = (JsonResponse 401 ''Current password is incorrect'', registered)"
    using password_verification_never_succeeds[OF registered_reachable, of "''2''"
        "GetJson (JDict [(''current_password'', JStr ''hunter22''), (''new_password'', JStr ''hunter33'')])"
        "GetJson (JDict [(''password'', JStr ''hunter22'')])" "JStr ''hunter22''"
        "''cy@example.org''" "\<lparr>inserted_id_of = 3, registered_at = 30, gensalt = ''s3.''\<rparr>"
        "''pw''" "''Cy''"]
    by (simp add: auth_eval registered_users e l)
  have d: "delete_account sample_auth_env registered ''1''
     (GetJson (JDict [(''password'', JStr ''secret1'')]))
     = (JsonResponse 401 ''Incorrect password'', registered)"
    by (simp add: auth_eval registered_users e)
  show ?thesis
    using registered_reachable c d by (simp add: registered_users find_one_def l)
qed

end
